theory Spec2Isabelle
  imports Main "HOL-Library.Char_ord" "HOL-Library.List_Lexorder" "HOL-Library.AList"
begin

section \<open>JavaScript values, errors and string helpers\<close>

text \<open>
  Query parameters and filter values are JSON-shaped JavaScript values. Numbers are
  restricted to integers; objects keep their own enumerable keys in the order of
  \<^verbatim>\<open>Object.entries\<close>.
\<close>

datatype jsval =
    JUndefined
  | JNull
  | JBool bool
  | JNum int
  | JStr string
  | JArr "jsval list"
  | JObj "(string \<times> jsval) list"

fun truthy :: "jsval \<Rightarrow> bool" where
  "truthy JUndefined = False"
| "truthy JNull = False"
| "truthy (JBool b) = b"
| "truthy (JNum n) = (n \<noteq> 0)"
| "truthy (JStr s) = (s \<noteq> [])"
| "truthy (JArr xs) = True"
| "truthy (JObj kvs) = True"

fun isString :: "jsval \<Rightarrow> bool" where
  "isString (JStr s) = True"
| "isString v = False"

fun isArray :: "jsval \<Rightarrow> bool" where
  "isArray (JArr xs) = True"
| "isArray v = False"

fun isObject :: "jsval \<Rightarrow> bool" where
  "isObject (JObj kvs) = True"
| "isObject v = False"

text \<open>
  Every \<^verbatim>\<open>throw new QueryError(...)\<close> of QueryBuilder.js is one constructor, carrying
  the values its message interpolates:
  \<^item> \<open>NotAllowed key\<close>: \<^verbatim>\<open>Query parameter '${key}' is not allowed.\<close>
  \<^item> \<open>InvalidQueryParameter key value\<close>: \<^verbatim>\<open>Invalid query parameter '${key}' in '${key}=${value}'.\<close>
  \<^item> \<open>InvalidFilter key value\<close>: \<^verbatim>\<open>Invalid filter in '${key}=${value}'.\<close>
  \<^item> \<open>UnsupportedWhere value\<close>: \<^verbatim>\<open>Unsupported 'where' query: '${value}'.\<close>
  \<^item> \<open>InvalidRange start end\<close>: \<^verbatim>\<open>Invalid range: [${start}, ${end}].\<close>
  \<^item> \<open>OrderByToManyRelation\<close>: \<^verbatim>\<open>Can only order by model's own properties and by one-to-one relations' properties.\<close>
  \<open>PropertyRefError\<close> stands for whatever the PropertyRef constructor throws,
  \<open>InvalidPath\<close> for the error of \<^verbatim>\<open>getDataPath\<close> on a path that is not in the data, and
  \<open>JsTypeError\<close> for a TypeError of the JavaScript runtime (a method call on a value
  that has no such method, destructuring a value that is not iterable).
  \<open>Unmodelled\<close> is no error of the program: it marks an input on which the model
  does not follow the program (a reference or a filter suffix that names an inherited
  member of a lookup table, a comparison that goes through IEEE doubles).
\<close>

datatype error =
    NotAllowed string
  | InvalidQueryParameter string jsval
  | InvalidFilter string jsval
  | UnsupportedWhere jsval
  | InvalidRange jsval jsval
  | OrderByToManyRelation
  | PropertyRefError string
  | InvalidPath string
  | JsTypeError
  | Unmodelled

fun isQueryError :: "error \<Rightarrow> bool" where
  "isQueryError JsTypeError = False"
| "isQueryError Unmodelled = False"
| "isQueryError e = True"

text \<open>
  Names that every plain object inherits from \<^verbatim>\<open>Object.prototype\<close>. The lookup tables of
  QueryBuilder.js (\<^verbatim>\<open>allowedLookup\<close>, \<^verbatim>\<open>queryHandlers\<close>, \<^verbatim>\<open>queryFilters\<close>,
  \<^verbatim>\<open>_propertyRefsCache\<close>) are object literals read with \<^verbatim>\<open>obj[key]\<close>, so these names
  are found in each of them although nobody registered them (\<open>ownKey\<close> holds of the
  other keys). \<^verbatim>\<open>find\<close> is modelled on these names too; the cache of property references
  and the filter suffix answer \<open>Unmodelled\<close> on them.
\<close>

definition objectPrototypeKeys :: "string list" where
  "objectPrototypeKeys =
     [''constructor'', ''__defineGetter__'', ''__defineSetter__'', ''hasOwnProperty'',
      ''__lookupGetter__'', ''__lookupSetter__'', ''isPrototypeOf'',
      ''propertyIsEnumerable'', ''toString'', ''valueOf'', ''__proto__'',
      ''toLocaleString'']"

definition ownKey :: "string \<Rightarrow> bool" where
  "ownKey k = (k \<notin> set objectPrototypeKeys)"

text \<open>The ASCII characters matched by the regular expression class \<^verbatim>\<open>\s\<close>.\<close>

definition isWhiteSpace :: "char \<Rightarrow> bool" where
  "isWhiteSpace c = (c \<in> set [CHR '' '', CHR 0x09, CHR 0x0A, CHR 0x0B, CHR 0x0C, CHR 0x0D])"

text \<open>
  \<^verbatim>\<open>String.prototype.split\<close> with a separator of the shape \<^verbatim>\<open>pre* sep post*\<close>, where
  \<open>sep\<close> is one character outside the class \<open>pre\<close>: \<^verbatim>\<open>/\s*:\s*/\<close>, \<^verbatim>\<open>/\s*\|\s*/\<close>,
  \<^verbatim>\<open>/\s*,s*/\<close> and the plain strings \<^verbatim>\<open>','\<close> and \<^verbatim>\<open>'='\<close> (empty classes).
  \<open>matchSep\<close> matches the separator at the head of the text and returns the text behind
  the match; \<open>splitRe\<close> scans for the leftmost match, as the runtime does.
\<close>

definition matchSep :: "(char \<Rightarrow> bool) \<Rightarrow> char \<Rightarrow> (char \<Rightarrow> bool) \<Rightarrow> string \<Rightarrow> string option" where
  "matchSep pre sep post s =
     (case dropWhile pre s of
        [] \<Rightarrow> None
      | c # r \<Rightarrow> if c = sep then Some (dropWhile post r) else None)"

lemma matchSep_shorter:
  "matchSep pre sep post s = Some r \<Longrightarrow> length r < length s"
proof -
  assume m: "matchSep pre sep post s = Some r"
  then obtain c t where d: "dropWhile pre s = c # t" and r: "r = dropWhile post t"
    by (auto simp: matchSep_def split: list.splits if_splits)
  have "length r \<le> length t"
    unfolding r by (rule length_dropWhile_le)
  moreover have "length (c # t) \<le> length s"
    unfolding d [symmetric] by (rule length_dropWhile_le)
  ultimately show ?thesis by simp
qed

function splitRe :: "(char \<Rightarrow> bool) \<Rightarrow> char \<Rightarrow> (char \<Rightarrow> bool) \<Rightarrow> string \<Rightarrow> string \<Rightarrow> string list" where
  "splitRe pre sep post acc [] = [rev acc]"
| "splitRe pre sep post acc (c # cs) =
     (case matchSep pre sep post (c # cs) of
        Some r \<Rightarrow> rev acc # splitRe pre sep post [] r
      | None \<Rightarrow> splitRe pre sep post (c # acc) cs)"
  by pat_completeness auto
termination
  by (relation "measure (\<lambda>(pre, sep, post, acc, s). length s)")
     (auto dest: matchSep_shorter)

definition splitStr :: "char \<Rightarrow> string \<Rightarrow> string list" where
  "splitStr sep s = splitRe (\<lambda>c. False) sep (\<lambda>c. False) [] s"

definition splitColon :: "string \<Rightarrow> string list" where
  "splitColon s = splitRe isWhiteSpace CHR '':'' isWhiteSpace [] s"

definition splitPipe :: "string \<Rightarrow> string list" where
  "splitPipe s = splitRe isWhiteSpace CHR ''|'' isWhiteSpace [] s"

definition splitRange :: "string \<Rightarrow> string list" where
  "splitRange s = splitRe isWhiteSpace CHR '','' (\<lambda>c. c = CHR ''s'') [] s"

fun joinWith :: "string \<Rightarrow> string list \<Rightarrow> string" where
  "joinWith sep [] = []"
| "joinWith sep [x] = x"
| "joinWith sep (x # y # ys) = x @ sep @ joinWith sep (y # ys)"

section \<open>The filter registry (queryFilters)\<close>

text \<open>
  Modelled from the spec: PropertyRef.js is not among the sources. A PropertyRef carries
  the raw reference (\<open>ref_key\<close>), the qualified column that \<^verbatim>\<open>fullColumnName(builder)\<close>
  returns, the relation it crosses (its name and whether it is one-to-one), the parsed
  direction and the property name. \<open>oid\<close> is the identity of the object: two
  references are the same object exactly when their \<open>oid\<close> agree.
\<close>

record relation =
  rel_name :: string
  isOneToOne :: bool

record propertyRef =
  oid :: nat
  ref_key :: string
  fullColumnName :: string
  ref_relation :: "relation option"
  ref_dir :: "string option"
  propertyName :: string

text \<open>The instruction \<^verbatim>\<open>{ method, args }\<close> a filter returns.\<close>

record instr =
  "method" :: string
  args :: "jsval list"

text \<open>
  \<^verbatim>\<open>function where(builder, ref, operator, value, method = 'where')\<close>: \<open>operator\<close> is
  \<^verbatim>\<open>null\<close> (\<open>None\<close>) or a string, \<open>meth\<close> is \<open>None\<close> when the argument is left out.
\<close>

definition whereInstr :: "propertyRef \<Rightarrow> string option \<Rightarrow> jsval \<Rightarrow> string option \<Rightarrow> instr" where
  "whereInstr ref operator val meth =
     (let columnName = fullColumnName ref in
      \<lparr> method = (case meth of None \<Rightarrow> ''where'' | Some m \<Rightarrow> m),
        args = (case operator of
                  Some op \<Rightarrow>
                    if op \<noteq> [] then [JStr columnName, JStr op, val]
                    else if val \<noteq> JUndefined then [JStr columnName, val]
                    else [JStr columnName]
                | None \<Rightarrow>
                    if val \<noteq> JUndefined then [JStr columnName, val]
                    else [JStr columnName]) \<rparr>)"

text \<open>\<^verbatim>\<open>value.split(',')\<close>: only a string has the method.\<close>

fun valueSplit :: "jsval \<Rightarrow> error + jsval" where
  "valueSplit (JStr s) = Inr (JArr (map JStr (splitStr CHR '','' s)))"
| "valueSplit v = Inl JsTypeError"

type_synonym queryFilter = "propertyRef \<Rightarrow> jsval \<Rightarrow> error + instr"

definition splitFilter :: "string \<Rightarrow> queryFilter" where
  "splitFilter meth ref val =
     (case valueSplit val of
        Inl e \<Rightarrow> Inl e
      | Inr parts \<Rightarrow> Inr (whereInstr ref None parts (Some meth)))"

definition filter_in :: queryFilter where
  "filter_in = splitFilter ''whereIn''"

definition filter_notIn :: queryFilter where
  "filter_notIn = splitFilter ''whereNotIn''"

definition filter_between :: queryFilter where
  "filter_between = splitFilter ''whereBetween''"

definition filter_notBetween :: queryFilter where
  "filter_notBetween = splitFilter ''whereNotBetween''"

definition filter_null :: queryFilter where
  "filter_null ref val = Inr (whereInstr ref None JUndefined (Some ''whereNull''))"

definition filter_notNull :: queryFilter where
  "filter_notNull ref val = Inr (whereInstr ref None JUndefined (Some ''whereNotNull''))"

definition filter_empty :: queryFilter where
  "filter_empty ref val = Inr (whereInstr ref (Some ''='') (JStr '''') None)"

definition filter_notEmpty :: queryFilter where
  "filter_notEmpty ref val = Inr (whereInstr ref (Some ''>'') (JStr '''') None)"

text \<open>The object literal \<^verbatim>\<open>const queryFilters = { in, notIn, between, ... }\<close>.\<close>

definition queryFiltersLiteral :: "(string \<times> queryFilter) list" where
  "queryFiltersLiteral =
     [(''in'', filter_in), (''notIn'', filter_notIn),
      (''between'', filter_between), (''notBetween'', filter_notBetween),
      (''null'', filter_null), (''notNull'', filter_notNull),
      (''empty'', filter_empty), (''notEmpty'', filter_notEmpty)]"

definition operators :: "(string \<times> string) list" where
  "operators =
     [(''eq'', ''=''), (''ne'', ''!=''), (''not'', ''is not''), (''lt'', ''<''),
      (''lte'', ''<=''), (''gt'', ''>''), (''gte'', ''>=''),
      (''between'', ''between''), (''notBetween'', ''not between''),
      (''like'', ''like''), (''noteLike'', ''not like''), (''iLike'', ''ilike''),
      (''notILike'', ''not ilike'')]"

definition operatorFilter :: "string \<Rightarrow> queryFilter" where
  "operatorFilter operator ref val = Inr (whereInstr ref (Some operator) val None)"

text \<open>
  The registry after the module has run: the literal, then the loop
  \<^verbatim>\<open>for (const [key, operator] of Object.entries(operators)) queryFilters[key] = ...\<close>,
  which assigns over the literal's \<^verbatim>\<open>between\<close> and \<^verbatim>\<open>notBetween\<close>.
\<close>

definition queryFilters :: "string \<rightharpoonup> queryFilter" where
  "queryFilters =
     foldl (\<lambda>reg (k, operator). reg(k \<mapsto> operatorFilter operator))
       (map_of queryFiltersLiteral) operators"

text \<open>\<^verbatim>\<open>key in queryFilters\<close>: own and inherited names.\<close>

definition inQueryFilters :: "string \<Rightarrow> bool" where
  "inQueryFilters k =
     (case queryFilters k of Some f \<Rightarrow> True | None \<Rightarrow> k \<in> set objectPrototypeKeys)"

section \<open>Conversions of the runtime\<close>

definition digitChar :: "nat \<Rightarrow> char" where
  "digitChar d = ''0123456789'' ! d"

function showNat :: "nat \<Rightarrow> string" where
  "showNat n = (if n < 10 then [digitChar n] else showNat (n div 10) @ [digitChar (n mod 10)])"
  by pat_completeness auto
termination
  by (relation "measure (\<lambda>n. n)") auto

declare showNat.simps [simp del]

definition showInt :: "int \<Rightarrow> string" where
  "showInt i = (if i < 0 then CHR ''-'' # showNat (nat (- i)) else showNat (nat i))"

text \<open>\<^verbatim>\<open>String(v)\<close>, as template literals and property keys apply it.\<close>

fun jsToString :: "jsval \<Rightarrow> string" where
  "jsToString JUndefined = ''undefined''"
| "jsToString JNull = ''null''"
| "jsToString (JBool b) = (if b then ''true'' else ''false'')"
| "jsToString (JNum n) = showInt n"
| "jsToString (JStr s) = s"
| "jsToString (JArr xs) =
     joinWith '',''
       (map (\<lambda>x. if x = JUndefined \<or> x = JNull then [] else jsToString x) xs)"
| "jsToString (JObj kvs) = ''[object Object]''"

text \<open>
  Whether \<^verbatim>\<open>Number(s)\<close> is a number and not \<^verbatim>\<open>NaN\<close>: the grammar StringNumericLiteral
  of ECMAScript over ASCII (white space around an optional literal; a signed decimal
  literal with fraction and exponent, \<^verbatim>\<open>Infinity\<close>, or an unsigned hexadecimal, octal or
  binary integer).
\<close>

definition isDigit :: "char \<Rightarrow> bool" where
  "isDigit c = (c \<in> set ''0123456789'')"

definition isHexDigit :: "char \<Rightarrow> bool" where
  "isHexDigit c = (c \<in> set ''0123456789abcdefABCDEF'')"

definition isOctalDigit :: "char \<Rightarrow> bool" where
  "isOctalDigit c = (c \<in> set ''01234567'')"

definition isBinaryDigit :: "char \<Rightarrow> bool" where
  "isBinaryDigit c = (c \<in> set ''01'')"

definition trimWs :: "string \<Rightarrow> string" where
  "trimWs s = rev (dropWhile isWhiteSpace (rev (dropWhile isWhiteSpace s)))"

definition isExponentPart :: "string \<Rightarrow> bool" where
  "isExponentPart e =
     (case e of
        [] \<Rightarrow> True
      | c # r \<Rightarrow>
          (c = CHR ''e'' \<or> c = CHR ''E'') \<and>
          (let ds = (case r of
                       [] \<Rightarrow> []
                     | s # t \<Rightarrow> if s = CHR ''+'' \<or> s = CHR ''-'' then t else r)
           in ds \<noteq> [] \<and> list_all isDigit ds))"

definition isUnsignedDecimal :: "string \<Rightarrow> bool" where
  "isUnsignedDecimal s =
     (s = ''Infinity'' \<or>
      (let ip = takeWhile isDigit s; r1 = dropWhile isDigit s in
       case r1 of
         [] \<Rightarrow> ip \<noteq> []
       | c # r2 \<Rightarrow>
           if c = CHR ''.''
           then (ip \<noteq> [] \<or> takeWhile isDigit r2 \<noteq> []) \<and> isExponentPart (dropWhile isDigit r2)
           else ip \<noteq> [] \<and> isExponentPart r1))"

definition isStrDecimal :: "string \<Rightarrow> bool" where
  "isStrDecimal s =
     (case s of
        [] \<Rightarrow> False
      | c # r \<Rightarrow> if c = CHR ''+'' \<or> c = CHR ''-'' then isUnsignedDecimal r else isUnsignedDecimal s)"

definition isNonDecimalInteger :: "string \<Rightarrow> bool" where
  "isNonDecimalInteger s =
     (case s of
        z # x # ds \<Rightarrow>
          z = CHR ''0'' \<and> ds \<noteq> [] \<and>
          (if x = CHR ''x'' \<or> x = CHR ''X'' then list_all isHexDigit ds
           else if x = CHR ''o'' \<or> x = CHR ''O'' then list_all isOctalDigit ds
           else if x = CHR ''b'' \<or> x = CHR ''B'' then list_all isBinaryDigit ds
           else False)
      | _ \<Rightarrow> False)"

definition isNumericString :: "string \<Rightarrow> bool" where
  "isNumericString s = (let t = trimWs s in t = [] \<or> isStrDecimal t \<or> isNonDecimalInteger t)"

text \<open>The global \<^verbatim>\<open>isNaN(v)\<close>: \<^verbatim>\<open>Number(v)\<close> is \<^verbatim>\<open>NaN\<close>.\<close>

fun jsIsNaN :: "jsval \<Rightarrow> bool" where
  "jsIsNaN JUndefined = True"
| "jsIsNaN JNull = False"
| "jsIsNaN (JBool b) = False"
| "jsIsNaN (JNum n) = False"
| "jsIsNaN (JStr s) = (\<not> isNumericString s)"
| "jsIsNaN (JArr xs) = (\<not> isNumericString (jsToString (JArr xs)))"
| "jsIsNaN (JObj kvs) = True"

text \<open>
  \<^verbatim>\<open>a < b\<close>: two strings are compared as strings, code unit by code unit; two numbers
  as numbers. A comparison of operands of other or mixed types converts them to IEEE
  doubles and is outside this model (\<open>None\<close>).
\<close>

fun jsLess :: "jsval \<Rightarrow> jsval \<Rightarrow> bool option" where
  "jsLess (JStr a) (JStr b) = Some (a < b)"
| "jsLess (JNum a) (JNum b) = Some (a < b)"
| "jsLess a b = None"

text \<open>\<^verbatim>\<open>xs[i]\<close> on an array: \<^verbatim>\<open>undefined\<close> out of range.\<close>

definition elemAt :: "jsval list \<Rightarrow> nat \<Rightarrow> jsval" where
  "elemAt xs i = (if i < length xs then xs ! i else JUndefined)"

text \<open>\<^verbatim>\<open>asArray\<close> of @ditojs/utils, as its tests fix it.\<close>

fun asArray :: "jsval \<Rightarrow> jsval list" where
  "asArray (JArr xs) = xs"
| "asArray JUndefined = []"
| "asArray v = [v]"

definition upcase :: "char \<Rightarrow> char" where
  "upcase c =
     (case map_of (zip ''abcdefghijklmnopqrstuvwxyz'' ''ABCDEFGHIJKLMNOPQRSTUVWXYZ'') c of
        Some u \<Rightarrow> u
      | None \<Rightarrow> c)"

fun capitalize :: "string \<Rightarrow> string" where
  "capitalize [] = []"
| "capitalize (c # cs) = upcase c # cs"

text \<open>
  A \<^verbatim>\<open>for ... of\<close> loop whose body may throw: the state is threaded through the
  elements in order and the first error ends the loop.
\<close>

fun forEach :: "('a \<Rightarrow> 's \<Rightarrow> error + 's) \<Rightarrow> 'a list \<Rightarrow> 's \<Rightarrow> error + 's" where
  "forEach f [] s = Inr s"
| "forEach f (x # xs) s = (case f x s of Inl e \<Rightarrow> Inl e | Inr s' \<Rightarrow> forEach f xs s')"

lemma forEach_cong [fundef_cong]:
  "xs = ys \<Longrightarrow> s = t \<Longrightarrow> (\<And>x u. x \<in> set ys \<Longrightarrow> f x u = g x u) \<Longrightarrow>
   forEach f xs s = forEach g ys t"
proof (induction ys arbitrary: xs s t)
  case Nil
  then show ?case by simp
next
  case (Cons y ys)
  then show ?case by (auto split: sum.splits)
qed

fun mapE :: "('a \<Rightarrow> error + 'b) \<Rightarrow> 'a list \<Rightarrow> error + 'b list" where
  "mapE f [] = Inr []"
| "mapE f (x # xs) =
     (case f x of
        Inl e \<Rightarrow> Inl e
      | Inr y \<Rightarrow> (case mapE f xs of Inl e \<Rightarrow> Inl e | Inr ys \<Rightarrow> Inr (y # ys)))"

section \<open>The query builder (QueryBuilder.js)\<close>

text \<open>
  The class extends the query builder of objection, which is not part of the
  repository. The calls the code makes on the inherited builder are recorded in order in
  \<open>calls\<close> (\<open>WhereGroup\<close> is \<^verbatim>\<open>this.where(builder => ...)\<close> with the calls its callback
  makes); \<open>eagerExpression\<close> is the inherited eager expression, kept as the list of
  expressions merged into it; \<open>isFindQuery\<close> and \<open>hasSelects\<close> are what the inherited
  methods of these names answer. \<open>allocated\<close> counts the PropertyRef objects this
  builder has constructed.
\<close>

datatype call = Call string "jsval list" | WhereGroup "call list"

record queryBuilder =
  allow :: "string list option"
  propertyRefsCache :: "(string \<times> propertyRef) list"
  allocated :: nat
  applyDefaultEager :: bool
  applyDefaultOrder :: bool
  scopes :: "jsval list"
  relationsToJoin :: "(string \<times> relation) list"
  eagerExpression :: "jsval list option"
  isFindQuery :: bool
  hasSelects :: bool
  calls :: "call list"

text \<open>
  What the code takes from outside QueryBuilder.js:
  \<^item> \<open>newPropertyRef ref parseDir allow\<close>: \<^verbatim>\<open>new PropertyRef(ref, this.modelClass(), parseDir, allow)\<close>;
  \<^item> \<open>mergeEagerDelegates\<close>: whether the inherited \<^verbatim>\<open>mergeEager\<close> calls \<^verbatim>\<open>this.eager\<close>
    when the builder has no eager expression yet, as it does in the releases 1.x of
    objection that this class extends;
  \<^item> \<open>defaultEager\<close>, \<open>defaultOrder\<close>: the statics of the model class;
  \<^item> \<open>applyPropertiesExpression\<close>: the handler of \<^verbatim>\<open>pick\<close> and \<^verbatim>\<open>omit\<close>, which rests on
    \<^verbatim>\<open>JSON.parse\<close> and the registered models.
\<close>

record env =
  newPropertyRef :: "jsval \<Rightarrow> bool \<Rightarrow> string list option \<Rightarrow> error + propertyRef"
  mergeEagerDelegates :: bool
  defaultEager :: jsval
  defaultOrder :: jsval
  applyPropertiesExpression :: "queryBuilder \<Rightarrow> string \<Rightarrow> jsval \<Rightarrow> error + queryBuilder"

definition newQueryBuilder :: queryBuilder where
  "newQueryBuilder =
     \<lparr> allow = None, propertyRefsCache = [], allocated = 0,
       applyDefaultEager = True, applyDefaultOrder = True, scopes = [],
       relationsToJoin = [], eagerExpression = None,
       isFindQuery = True, hasSelects = False, calls = [] \<rparr>"

definition issue :: "call \<Rightarrow> queryBuilder \<Rightarrow> queryBuilder" where
  "issue c b = b\<lparr>calls := calls b @ [c]\<rparr>"

subsection \<open>Eager expressions, order and scopes\<close>

definition objection_eager :: "queryBuilder \<Rightarrow> jsval \<Rightarrow> queryBuilder" where
  "objection_eager b v = b\<lparr>eagerExpression := Some [v]\<rparr>"

definition eager :: "queryBuilder \<Rightarrow> jsval \<Rightarrow> queryBuilder" where
  "eager b v = objection_eager (b\<lparr>applyDefaultEager := False\<rparr>) v"

definition clearEager :: "queryBuilder \<Rightarrow> queryBuilder" where
  "clearEager b = b\<lparr>applyDefaultEager := False, eagerExpression := None\<rparr>"

definition mergeEager :: "env \<Rightarrow> queryBuilder \<Rightarrow> jsval \<Rightarrow> queryBuilder" where
  "mergeEager E b v =
     (case eagerExpression b of
        None \<Rightarrow> if mergeEagerDelegates E then eager b v else objection_eager b v
      | Some es \<Rightarrow> b\<lparr>eagerExpression := Some (es @ [v])\<rparr>)"

definition orderBy :: "queryBuilder \<Rightarrow> jsval list \<Rightarrow> queryBuilder" where
  "orderBy b as = issue (Call ''orderBy'' as) (b\<lparr>applyDefaultOrder := False\<rparr>)"

definition clearOrder :: "queryBuilder \<Rightarrow> queryBuilder" where
  "clearOrder b = b\<lparr>applyDefaultOrder := False\<rparr>"

definition clearScope :: "queryBuilder \<Rightarrow> queryBuilder" where
  "clearScope b = b\<lparr>scopes := []\<rparr>"

text \<open>
  \<^verbatim>\<open>mergeScope(...scopes)\<close>; \<^verbatim>\<open>includes\<close> is taken on values (scopes are names).
\<close>

definition mergeScope :: "queryBuilder \<Rightarrow> jsval list \<Rightarrow> queryBuilder" where
  "mergeScope b ss =
     foldl (\<lambda>b sc. if sc \<in> set (scopes b) then b else b\<lparr>scopes := scopes b @ [sc]\<rparr>) b ss"

definition scope :: "queryBuilder \<Rightarrow> jsval list \<Rightarrow> queryBuilder" where
  "scope b ss = mergeScope (clearScope b) ss"

definition execute :: "env \<Rightarrow> queryBuilder \<Rightarrow> queryBuilder" where
  "execute E b =
     (let b1 =
        (if isFindQuery b \<and> \<not> hasSelects b then
           (let b' = (if truthy (defaultEager E) \<and> applyDefaultEager b
                      then mergeEager E b (defaultEager E) else b)
            in if truthy (defaultOrder E) \<and> applyDefaultOrder b'
               then orderBy b' (asArray (defaultOrder E)) else b')
         else b);
          b2 = foldl (\<lambda>b sc. issue (Call ''applyFilter'' [sc]) b) b1 (scopes b1)
      in issue (Call ''execute'' []) b2)"

subsection \<open>Property references and their cache\<close>

text \<open>
  \<^verbatim>\<open>refs = isString(refs) ? refs.split(/\s*\|\s*/) : refs\<close>, then \<^verbatim>\<open>refs.map\<close>: a value
  that is neither a string nor an array has no \<^verbatim>\<open>map\<close>.
\<close>

fun refList :: "jsval \<Rightarrow> error + jsval list" where
  "refList (JStr s) = Inr (map JStr (splitPipe s))"
| "refList (JArr xs) = Inr xs"
| "refList v = Inl JsTypeError"

text \<open>
  \<^verbatim>\<open>refs.map(ref => cache[ref] || (cache[ref] = new PropertyRef(...)))\<close>. A new object
  takes the next identity.
\<close>

fun resolveRefs :: "env \<Rightarrow> bool \<Rightarrow> bool \<Rightarrow> jsval list \<Rightarrow> queryBuilder \<Rightarrow> error + propertyRef list \<times> queryBuilder" where
  "resolveRefs E parseDir checkAllow [] b = Inr ([], b)"
| "resolveRefs E parseDir checkAllow (ref # refs) b =
     (if \<not> ownKey (jsToString ref) then Inl Unmodelled else
      case map_of (propertyRefsCache b) (jsToString ref) of
        Some r \<Rightarrow>
          (case resolveRefs E parseDir checkAllow refs b of
             Inl e \<Rightarrow> Inl e
           | Inr (rs, b') \<Rightarrow> Inr (r # rs, b'))
      | None \<Rightarrow>
          (case newPropertyRef E ref parseDir (if checkAllow then allow b else None) of
             Inl e \<Rightarrow> Inl e
           | Inr r0 \<Rightarrow>
               (let r = r0\<lparr>oid := allocated b\<rparr>;
                    b1 = b\<lparr>propertyRefsCache := propertyRefsCache b @ [(jsToString ref, r)],
                           allocated := Suc (allocated b)\<rparr>
                in case resolveRefs E parseDir checkAllow refs b1 of
                     Inl e \<Rightarrow> Inl e
                   | Inr (rs, b') \<Rightarrow> Inr (r # rs, b'))))"

definition getPropertyRefs :: "env \<Rightarrow> jsval \<Rightarrow> bool \<Rightarrow> bool \<Rightarrow> queryBuilder \<Rightarrow> error + propertyRef list \<times> queryBuilder" where
  "getPropertyRefs E refs parseDir checkAllow b =
     (case refList refs of
        Inl e \<Rightarrow> Inl e
      | Inr rs \<Rightarrow> resolveRefs E parseDir checkAllow rs b)"

text \<open>\<^verbatim>\<open>allow(refs)\<close>.\<close>

definition allowRefs :: "env \<Rightarrow> jsval \<Rightarrow> queryBuilder \<Rightarrow> error + queryBuilder" where
  "allowRefs E refs b =
     (if truthy refs then
        (case getPropertyRefs E refs False False
                (b\<lparr>allow := Some (case allow b of None \<Rightarrow> [] | Some ks \<Rightarrow> ks)\<rparr>) of
           Inl e \<Rightarrow> Inl e
         | Inr (rs, b') \<Rightarrow>
             Inr (b'\<lparr>allow := Some ((case allow b' of None \<Rightarrow> [] | Some ks \<Rightarrow> ks) @ map ref_key rs)\<rparr>))
      else Inr (b\<lparr>allow := None\<rparr>))"

subsection \<open>parseQueryFilter\<close>

text \<open>
  Modelled from the spec: \<^verbatim>\<open>applyQueryFilter\<close> is a method of PropertyRef.js, which is
  not among the sources. It asks the filter for its instruction and applies it to the
  query: directly for a single reference, with the boolean operator \<^verbatim>\<open>or\<close> in front of
  the capitalised method inside a group of several.
\<close>

definition applyQueryFilter :: "propertyRef \<Rightarrow> queryFilter \<Rightarrow> jsval \<Rightarrow> string option \<Rightarrow> error + call" where
  "applyQueryFilter ref queryFilter val boolOp =
     (case queryFilter ref val of
        Inl e \<Rightarrow> Inl e
      | Inr i \<Rightarrow>
          Inr (Call (case boolOp of None \<Rightarrow> method i | Some bo \<Rightarrow> bo @ capitalize (method i))
                    (args i)))"

definition noteRelationToJoin :: "queryBuilder \<Rightarrow> propertyRef \<Rightarrow> queryBuilder" where
  "noteRelationToJoin b ref =
     (case ref_relation ref of
        None \<Rightarrow> b
      | Some rel \<Rightarrow>
          if isOneToOne rel
          then b\<lparr>relationsToJoin := AList.update (rel_name rel) rel (relationsToJoin b)\<rparr>
          else b)"

text \<open>
  The filter \<^verbatim>\<open>parseQueryFilter\<close> chooses for the parts of a key. For a suffix that names
  an inherited member the lookup \<^verbatim>\<open>queryFilters[parts[1]]\<close> finds that member; what
  follows is decided in PropertyRef.js.
\<close>

definition chooseQueryFilter :: "string list \<Rightarrow> jsval \<Rightarrow> queryFilter option" where
  "chooseQueryFilter parts val =
     (case parts of
        [p0] \<Rightarrow> if val = JNull then queryFilters ''null'' else queryFilters ''eq''
      | [p0, p1] \<Rightarrow> queryFilters p1
      | _ \<Rightarrow> None)"

definition parseQueryFilter :: "env \<Rightarrow> string \<Rightarrow> jsval \<Rightarrow> queryBuilder \<Rightarrow> error + queryBuilder" where
  "parseQueryFilter E k val b =
     (let parts = splitColon k in
      if length parts = 2 \<and> \<not> ownKey (parts ! 1) then Inl Unmodelled else
      case chooseQueryFilter parts val of
        None \<Rightarrow> Inl (InvalidFilter k val)
      | Some queryFilter \<Rightarrow>
          (case getPropertyRefs E (JStr (hd parts)) False True b of
             Inl e \<Rightarrow> Inl e
           | Inr (propertyRefs, b1) \<Rightarrow>
               (let b2 = foldl noteRelationToJoin b1 propertyRefs in
                case propertyRefs of
                  [ref] \<Rightarrow>
                    (case applyQueryFilter ref queryFilter val None of
                       Inl e \<Rightarrow> Inl e
                     | Inr c \<Rightarrow> Inr (issue c b2))
                | _ \<Rightarrow>
                    (case mapE (\<lambda>ref. applyQueryFilter ref queryFilter val (Some ''or'')) propertyRefs of
                       Inl e \<Rightarrow> Inl e
                     | Inr cs \<Rightarrow> Inr (issue (WhereGroup cs) b2)))))"

subsection \<open>The query handlers (queryHandlers)\<close>

text \<open>
  \<^verbatim>\<open>processPropertyRefs(key, value, parts)\<close> of the \<^verbatim>\<open>where\<close> handler. \<open>key\<close> is
  \<^verbatim>\<open>null\<close> (\<open>None\<close>) at the top and for array entries, \<open>parts\<close> is \<^verbatim>\<open>undefined\<close>
  (\<open>None\<close>) there. \<open>pqf\<close> is \<^verbatim>\<open>builder.parseQueryFilter\<close>. A \<^verbatim>\<open>null\<close> joins as the
  empty string.
\<close>

fun processPropertyRefs :: "(string \<Rightarrow> jsval \<Rightarrow> 's \<Rightarrow> error + 's) \<Rightarrow> string option \<Rightarrow> jsval \<Rightarrow> string list option \<Rightarrow> 's \<Rightarrow> error + 's" where
  "processPropertyRefs pqf key (JObj kvs) parts s =
     forEach
       (\<lambda>(subKey, subValue) s.
          processPropertyRefs pqf (Some subKey) subValue
            (case parts of
               Some ps \<Rightarrow> Some (ps @ [case key of Some k \<Rightarrow> k | None \<Rightarrow> []])
             | None \<Rightarrow> Some []) s)
       kvs s"
| "processPropertyRefs pqf key v (Some ps) s =
     (let filterName = (case key of
                          Some k \<Rightarrow> if inQueryFilters k \<and> k \<noteq> [] then Some k else None
                        | None \<Rightarrow> None);
          ps' = (if filterName = None then ps @ [case key of Some k \<Rightarrow> k | None \<Rightarrow> []] else ps);
          ref = joinWith ''.'' ps' @ (case filterName of Some fn \<Rightarrow> '':'' @ fn | None \<Rightarrow> [])
      in pqf ref v s)"
| "processPropertyRefs pqf key (JStr str) None s =
     (let sp = splitStr CHR ''='' str
      in pqf (hd sp) (if 1 < length sp then JStr (sp ! 1) else JUndefined) s)"
| "processPropertyRefs pqf key (JArr xs) None s =
     forEach (\<lambda>entry s. processPropertyRefs pqf None entry None s) xs s"
| "processPropertyRefs pqf key v None s = Inl (UnsupportedWhere v)"

type_synonym queryHandler = "queryBuilder \<Rightarrow> string \<Rightarrow> jsval \<Rightarrow> error + queryBuilder"

definition handler_where :: "env \<Rightarrow> queryHandler" where
  "handler_where E b key val = processPropertyRefs (parseQueryFilter E) None val None b"

definition handler_eager :: "env \<Rightarrow> queryHandler" where
  "handler_eager E b key val = (if truthy val then Inr (mergeEager E b val) else Inr b)"

definition handler_scope :: queryHandler where
  "handler_scope b key val = Inr (mergeScope b [val])"

text \<open>
  \<^verbatim>\<open>const [start, end] = isString(value) ? value.split(/\s*,s*/) : value\<close>: a truthy value
  that is neither a string nor an array is not iterable.
\<close>

fun rangeParts :: "jsval \<Rightarrow> error + jsval list" where
  "rangeParts (JStr s) = Inr (map JStr (splitRange s))"
| "rangeParts (JArr xs) = Inr xs"
| "rangeParts v = Inl JsTypeError"

definition handler_range :: queryHandler where
  "handler_range b key val =
     (if truthy val then
        (case rangeParts val of
           Inl e \<Rightarrow> Inl e
         | Inr ps \<Rightarrow>
             (let start = elemAt ps 0; end = elemAt ps 1 in
              if jsIsNaN start \<or> jsIsNaN end then Inl (InvalidRange start end)
              else (case jsLess end start of
                      None \<Rightarrow> Inl Unmodelled
                    | Some True \<Rightarrow> Inl (InvalidRange start end)
                    | Some False \<Rightarrow> Inr (issue (Call ''range'' [start, end]) b))))
      else Inr b)"

definition handler_limit :: queryHandler where
  "handler_limit b key val = Inr (issue (Call ''limit'' [val]) b)"

definition handler_offset :: queryHandler where
  "handler_offset b key val = Inr (issue (Call ''offset'' [val]) b)"

definition select :: "queryBuilder \<Rightarrow> string \<Rightarrow> queryBuilder" where
  "select b col = (issue (Call ''select'' [JStr col]) b)\<lparr>hasSelects := True\<rparr>"

definition orderByRef :: "propertyRef \<Rightarrow> queryBuilder \<Rightarrow> error + queryBuilder" where
  "orderByRef ref b =
     (let dir = (case ref_dir ref of None \<Rightarrow> ''asc'' | Some d \<Rightarrow> d);
          columnName = fullColumnName ref
      in case ref_relation ref of
           Some rel \<Rightarrow>
             if \<not> isOneToOne rel then Inl OrderByToManyRelation
             else (let alias = rel_name rel @ capitalize (propertyName ref)
                   in Inr (orderBy (select b (columnName @ '' as '' @ alias)) [JStr alias, JStr dir]))
         | None \<Rightarrow>
             Inr (issue (Call ''skipUndefined'' []) (orderBy b [JStr columnName, JStr dir])))"

definition handler_order :: "env \<Rightarrow> queryHandler" where
  "handler_order E b key val =
     (if truthy val then
        (case getPropertyRefs E val True True b of
           Inl e \<Rightarrow> Inl e
         | Inr (refs, b1) \<Rightarrow> forEach orderByRef refs b1)
      else Inr b)"

definition handler_join :: "string \<Rightarrow> queryHandler" where
  "handler_join join b key val = Inr (issue (Call (join @ ''Relation'') [val]) b)"

definition joinKeys :: "string list" where
  "joinKeys =
     [''join'', ''innerJoin'', ''outerJoin'', ''leftJoin'', ''leftOuterJoin'', ''rightJoin'',
      ''rightOuterJoin'', ''fullOuterJoin'']"

text \<open>
  The registry after the module has run: the object literal and the loop that installs
  one handler per kind of join.
\<close>

definition queryHandlers :: "env \<Rightarrow> string \<rightharpoonup> queryHandler" where
  "queryHandlers E =
     foldl (\<lambda>reg join. reg(join \<mapsto> handler_join join))
       (map_of
          [(''where'', handler_where E), (''eager'', handler_eager E),
           (''omit'', applyPropertiesExpression E), (''pick'', applyPropertiesExpression E),
           (''scope'', handler_scope), (''range'', handler_range),
           (''limit'', handler_limit), (''offset'', handler_offset),
           (''order'', handler_order E)])
       joinKeys"

subsection \<open>find and findOne\<close>

text \<open>
  \<^verbatim>\<open>queryHandlers[key]\<close> and \<^verbatim>\<open>allowedLookup[key]\<close> on a name inherited from
  \<^verbatim>\<open>Object.prototype\<close> find the inherited member, which is truthy. \<^verbatim>\<open>find\<close> then calls it
  as \<^verbatim>\<open>queryHandler(this, key, value)\<close>, with no \<^verbatim>\<open>this\<close> value (the module is strict
  code): \<^verbatim>\<open>Object\<close> (the member \<^verbatim>\<open>constructor\<close>) and \<^verbatim>\<open>toString\<close> return without an
  effect on the builder; the other methods convert their \<^verbatim>\<open>this\<close> value to an object and
  throw a TypeError, and \<^verbatim>\<open>__proto__\<close> is an object that cannot be called.
\<close>

definition inheritedMember :: "string \<Rightarrow> queryHandler" where
  "inheritedMember name b key val =
     (if name = ''constructor'' \<or> name = ''toString'' then Inr b else Inl JsTypeError)"

definition lookupHandler :: "env \<Rightarrow> string \<Rightarrow> queryHandler option" where
  "lookupHandler E key = (if ownKey key then queryHandlers E key else Some (inheritedMember key))"

text \<open>
  One round of the loop of \<^verbatim>\<open>find(query = {}, allowed)\<close>. \<open>allowed\<close> is \<open>None\<close> when
  the argument is left out; an array, also the empty one, is truthy.
\<close>

definition findEntry :: "env \<Rightarrow> string list option \<Rightarrow> string \<times> jsval \<Rightarrow> queryBuilder \<Rightarrow> error + queryBuilder" where
  "findEntry E allowed kv b =
     (let key = fst kv; val = snd kv;
          inAllowed = (case allowed of None \<Rightarrow> False | Some ks \<Rightarrow> if ownKey key then key \<in> set ks else True)
      in if allowed = None \<or> inAllowed then
           (case lookupHandler E key of
              Some queryHandler \<Rightarrow> queryHandler b key val
            | None \<Rightarrow> if \<not> inAllowed then Inl (InvalidQueryParameter key val) else Inr b)
         else Inl (NotAllowed key))"

definition find :: "env \<Rightarrow> (string \<times> jsval) list \<Rightarrow> string list option \<Rightarrow> queryBuilder \<Rightarrow> error + queryBuilder" where
  "find E query allowed b =
     (case forEach (findEntry E allowed) query (b\<lparr>relationsToJoin := []\<rparr>) of
        Inl e \<Rightarrow> Inl e
      | Inr b1 \<Rightarrow>
          Inr (foldl (\<lambda>b rel. issue (Call ''relation.join'' [JStr (fst rel), JStr ''leftJoin'']) b)
                 b1 (relationsToJoin b1)))"



section \<open>An example environment\<close>

text \<open>
  A model class whose every reference resolves to a column of \<^verbatim>\<open>Person\<close>, with a
  default eager expression and a default order; the theorems below are instantiated on it.
\<close>

definition examplePropertyRef :: "jsval \<Rightarrow> propertyRef" where
  "examplePropertyRef ref =
     \<lparr> oid = 0, ref_key = jsToString ref, fullColumnName = ''Person.'' @ jsToString ref,
       ref_relation = None, ref_dir = None, propertyName = jsToString ref \<rparr>"

definition exampleEnv :: env where
  "exampleEnv =
     \<lparr> newPropertyRef = (\<lambda>ref parseDir allow. Inr (examplePropertyRef ref)),
       mergeEagerDelegates = True, defaultEager = JStr ''author'',
       defaultOrder = JStr ''name'',
       applyPropertiesExpression = (\<lambda>b k v. Inr b) \<rparr>"

section \<open>The flattening of a where object, as the specification words it\<close>

text \<open>
  Object nesting dot-joins the keys into a reference path; a leaf key that names a
  registered filter becomes the suffix after a colon instead of a path segment; every
  leaf gives one instruction (reference, value).
\<close>

fun flattenWhere :: "string list \<Rightarrow> string \<Rightarrow> jsval \<Rightarrow> (string \<times> jsval) list" where
  "flattenWhere path key (JObj kvs) =
     concat (map (\<lambda>(subKey, subValue). flattenWhere (path @ [key]) subKey subValue) kvs)"
| "flattenWhere path key v =
     [(if inQueryFilters key \<and> key \<noteq> []
       then joinWith ''.'' path @ '':'' @ key
       else joinWith ''.'' (path @ [key]), v)]"

definition whereInstructions :: "(string \<times> jsval) list \<Rightarrow> (string \<times> jsval) list" where
  "whereInstructions kvs = concat (map (\<lambda>(key, v). flattenWhere [] key v) kvs)"

definition exampleWhere :: "(string \<times> jsval) list" where
  "exampleWhere =
     [(''firstName'', JObj [(''like'', JStr ''Jo%'')]), (''lastName'', JStr ''%oe'')]"

section \<open>The graph processor (GraphProcessor.js)\<close>

subsection \<open>Graphs, model classes and the object store\<close>

text \<open>
  A graph is a tree of entity nodes (instances of model classes), arrays and primitive
  values. An entity node and an array are objects: each carries its identity, a number
  the store hands out when the object is created, besides the class name and the own
  fields in their order. Two nodes denote the same object exactly when their
  identities agree.
\<close>

datatype gval =
    GUndefined
  | GNull
  | GBool bool
  | GNum int
  | GStr string
  | GModel nat string "(string \<times> gval) list"
  | GArray nat "gval list"

text \<open>\<^verbatim>\<open>obj[name]\<close> on the fields of an object.\<close>

definition getField :: "(string \<times> gval) list \<Rightarrow> string \<Rightarrow> gval" where
  "getField fs name = (case map_of fs name of Some v \<Rightarrow> v | None \<Rightarrow> GUndefined)"

text \<open>
  The relation metadata of a model class: the name of the relation, its
  \<^verbatim>\<open>graphOptions\<close> when it defines them, whether it owns its data, and the class it leads
  to. \<open>models\<close> lists the classes with the relations of \<^verbatim>\<open>definition.relations\<close> in
  their order; \<^verbatim>\<open>getRelationArray()\<close> and \<^verbatim>\<open>getRelations()\<close> of objection answer from the
  same list.
\<close>

record relationDef =
  rd_name :: string
  rd_graphOptions :: "(string \<times> jsval) list option"
  rd_owner :: bool
  rd_related :: string

type_synonym models = "(string \<times> relationDef list) list"

definition relationsOf :: "models \<Rightarrow> string \<Rightarrow> relationDef list" where
  "relationsOf M cls = (case map_of M cls of Some rs \<Rightarrow> rs | None \<Rightarrow> [])"

definition relationNames :: "models \<Rightarrow> string \<Rightarrow> string list" where
  "relationNames M cls = map rd_name (relationsOf M cls)"

text \<open>
  A loop that maps the elements of a list in order and threads a state through them
  (\<^verbatim>\<open>Array.prototype.map\<close> with a callback that has effects).
\<close>

fun mapS :: "('a \<Rightarrow> 's \<Rightarrow> 'b \<times> 's) \<Rightarrow> 'a list \<Rightarrow> 's \<Rightarrow> 'b list \<times> 's" where
  "mapS f [] s = ([], s)"
| "mapS f (x # xs) s =
     (case f x s of (y, s1) \<Rightarrow> (case mapS f xs s1 of (ys, s2) \<Rightarrow> (y # ys, s2)))"

lemma mapS_cong [fundef_cong]:
  "xs = ys \<Longrightarrow> s = t \<Longrightarrow> (\<And>x u. x \<in> set ys \<Longrightarrow> f x u = g x u) \<Longrightarrow> mapS f xs s = mapS g ys t"
proof (induction ys arbitrary: xs s t)
  case Nil
  then show ?case by simp
next
  case (Cons y ys)
  then show ?case by (auto split: prod.splits)
qed

text \<open>
  \<^verbatim>\<open>$clone()\<close> of objection, which is not part of the repository: the deep clone creates
  a new object for the node and for every object below it (the second argument is the
  next free identity, the second result the one after the clone);
  \<^verbatim>\<open>$clone({ shallow: true })\<close> leaves the relations of the node out and clones the rest.
\<close>

fun cloneValue :: "gval \<Rightarrow> nat \<Rightarrow> gval \<times> nat" where
  "cloneValue (GModel i cls fs) n =
     (case mapS (\<lambda>kv m. case cloneValue (snd kv) m of (v, m') \<Rightarrow> ((fst kv, v), m')) fs (Suc n) of
        (fs', n') \<Rightarrow> (GModel n cls fs', n'))"
| "cloneValue (GArray i xs) n =
     (case mapS (\<lambda>x m. cloneValue x m) xs (Suc n) of (xs', n') \<Rightarrow> (GArray n xs', n'))"
| "cloneValue v n = (v, n)"

definition cloneShallow :: "models \<Rightarrow> gval \<Rightarrow> nat \<Rightarrow> gval \<times> nat" where
  "cloneShallow M v n =
     (case v of
        GModel i cls fs \<Rightarrow>
          cloneValue (GModel i cls (filter (\<lambda>kv. fst kv \<notin> set (relationNames M cls)) fs)) n
      | _ \<Rightarrow> cloneValue v n)"

lemma mapS_size:
  "(\<And>x s y s'. x \<in> set xs \<Longrightarrow> f x s = (y, s') \<Longrightarrow> sz y = sz x) \<Longrightarrow>
   mapS f xs s = (ys, s') \<Longrightarrow> size_list sz ys = size_list sz xs"
proof (induction xs arbitrary: s ys s')
  case Nil
  then show ?case by simp
next
  case (Cons x xs)
  from Cons.prems(2) obtain y s1 ys' where
    a: "f x s = (y, s1)" and b: "mapS f xs s1 = (ys', s')" and c: "ys = y # ys'"
    by (auto split: prod.splits)
  have "sz y = sz x" using Cons.prems(1) [OF _ a] by simp
  moreover have "size_list sz ys' = size_list sz xs"
    using Cons.IH [OF _ b] Cons.prems(1) by auto
  ultimately show ?case using c by simp
qed

lemma cloneValue_size: "cloneValue v n = (v', n') \<Longrightarrow> size v' = size v"
proof (induction v n arbitrary: v' n' rule: cloneValue.induct)
  case (1 i cls fs n)
  from 1(2) obtain fs' where
    m: "mapS (\<lambda>kv m. case cloneValue (snd kv) m of (v, m') \<Rightarrow> ((fst kv, v), m')) fs (Suc n) = (fs', n')"
    and v': "v' = GModel n cls fs'"
    by (auto split: prod.splits)
  have "size_list (size_prod (\<lambda>x. 0) size) fs' = size_list (size_prod (\<lambda>x. 0) size) fs"
  proof (rule mapS_size [OF _ m])
    fix x s y s'
    assume x: "x \<in> set fs"
      and e: "(case cloneValue (snd x) s of (v, m') \<Rightarrow> ((fst x, v), m')) = (y, s')"
    obtain w m' where c: "cloneValue (snd x) s = (w, m')" by (cases "cloneValue (snd x) s")
    from 1(1) [OF x c] e c show "size_prod (\<lambda>x. 0) size y = size_prod (\<lambda>x. 0) size x"
      by (cases x) auto
  qed
  then show ?case by (simp add: v')
next
  case (2 i xs n)
  from 2(2) obtain xs' where
    m: "mapS (\<lambda>x m. cloneValue x m) xs (Suc n) = (xs', n')" and v': "v' = GArray n xs'"
    by (auto split: prod.splits)
  have "size_list size xs' = size_list size xs"
    by (rule mapS_size [OF _ m]) (use 2(1) in auto)
  then show ?case by (simp add: v')
qed simp_all

lemma size_getField: "size (getField fs name) \<le> size_list (size_prod (\<lambda>x. 0) size) fs"
proof (cases "map_of fs name")
  case None
  then show ?thesis by (simp add: getField_def)
next
  case (Some v)
  then have "(name, v) \<in> set fs" by (rule map_of_SomeD)
  then have "size_prod (\<lambda>x. 0) size (name, v) \<le> size_list (size_prod (\<lambda>x. 0) size) fs"
    by (simp add: size_list_estimation')
  with Some show ?thesis by (simp add: getField_def)
qed

subsection \<open>The processor\<close>

text \<open>
  The fields of a GraphProcessor. \<open>gp_data\<close> is the array \<^verbatim>\<open>this.data\<close>;
  \<open>removedRelations\<close> is \<open>None\<close> when \<^verbatim>\<open>settings.restoreRelations\<close> is not set, and else
  the object that maps a data path to the relation values taken out there.
\<close>

record graphProcessor =
  rootModelClass :: string
  gp_data :: gval
  gp_isArray :: bool
  gp_options :: "(string \<times> jsval) list"
  overrides :: "(string \<times> string list) list"
  numOptions :: nat
  numOverrides :: nat
  removedRelations :: "(string \<times> (string \<times> gval) list) list option"

text \<open>
  The object store as far as the processor touches it: the next free identity, and the
  identities of the objects the code has assigned a property of
  (\<^verbatim>\<open>clone[name] = value\<close>), in order.
\<close>

record store =
  nextId :: nat
  written :: "nat list"

definition appendPath :: "string \<Rightarrow> string \<Rightarrow> string \<Rightarrow> string" where
  "appendPath path separator token = (if path \<noteq> [] then path @ separator @ token else token)"

definition getGraphOptions :: "relationDef \<Rightarrow> (string \<times> jsval) list" where
  "getGraphOptions relation =
     (case rd_graphOptions relation of
        Some go \<Rightarrow> go
      | None \<Rightarrow>
          if rd_owner relation then [(''relate'', JBool False), (''unrelate'', JBool False)]
          else [])"

text \<open>
  \<^verbatim>\<open>getOptions()\<close>: the options, or \<^verbatim>\<open>{ ...this.options, ...this.overrides }\<close>, in which
  an overridden option holds the array of its relation paths.
\<close>

definition getOptions :: "graphProcessor \<Rightarrow> (string \<times> jsval) list" where
  "getOptions gp =
     (if 0 < numOverrides gp
      then fold (\<lambda>kv opts. AList.update (fst kv) (JArr (map JStr (snd kv))) opts)
             (overrides gp) (gp_options gp)
      else gp_options gp)"

text \<open>
  \<^verbatim>\<open>shouldRelate(relationPath)\<close>: for the root path the function falls off its end and
  returns \<^verbatim>\<open>undefined\<close>.
\<close>

definition shouldRelate :: "graphProcessor \<Rightarrow> string \<Rightarrow> jsval" where
  "shouldRelate gp relationPath =
     (if relationPath \<noteq> [] then
        (case map_of (overrides gp) ''relate'' of
           Some relate \<Rightarrow> JBool (relationPath \<in> set relate)
         | None \<Rightarrow> (case map_of (gp_options gp) ''relate'' of Some v \<Rightarrow> v | None \<Rightarrow> JUndefined))
      else JUndefined)"


text \<open>Reading and assigning the parts of an entity node.\<close>

fun modelFields :: "gval \<Rightarrow> (string \<times> gval) list" where
  "modelFields (GModel i cls fs) = fs"
| "modelFields v = []"

fun oidOf :: "gval \<Rightarrow> nat" where
  "oidOf (GModel i cls fs) = i"
| "oidOf (GArray i xs) = i"
| "oidOf v = 0"

fun setField :: "gval \<Rightarrow> string \<Rightarrow> gval \<Rightarrow> gval" where
  "setField (GModel i cls fs) name v = GModel i cls (AList.update name v fs)"
| "setField obj name v = obj"

text \<open>\<^verbatim>\<open>data.$clone({ shallow })\<close>.\<close>

definition clone :: "models \<Rightarrow> gval \<Rightarrow> bool \<Rightarrow> nat \<Rightarrow> gval \<times> nat" where
  "clone M d shallow n = (if shallow then cloneShallow M d n else cloneValue d n)"

lemma processRelates_term_field:
  "size (getField (modelFields (fst (cloneValue (GModel i cls fs) n))) name)
     < Suc (size_list (size_prod (\<lambda>x. 0) size) fs)"
proof -
  obtain v' n' where c: "cloneValue (GModel i cls fs) n = (v', n')"
    by (cases "cloneValue (GModel i cls fs) n")
  then obtain fs' where v': "v' = GModel n cls fs'"
    by (auto split: prod.splits)
  from c have "size v' = size (GModel i cls fs)" by (rule cloneValue_size)
  moreover have "size (getField fs' name) \<le> size_list (size_prod (\<lambda>x. 0) size) fs'"
    by (rule size_getField)
  ultimately show ?thesis using c v' by simp
qed

text \<open>The entries of an array with their indices.\<close>

definition indexed :: "'a list \<Rightarrow> ('a \<times> nat) list" where
  "indexed xs = zip xs [0..<length xs]"

lemma processRelates_term_entry:
  "x \<in> set (indexed xs) \<Longrightarrow> size (fst x) < Suc (size_list size xs)"
proof -
  assume "x \<in> set (indexed xs)"
  then have "fst x \<in> set xs" unfolding indexed_def by (metis prod.collapse set_zip_leftD)
  then have "size (fst x) \<le> size_list size xs" by (simp add: size_list_estimation')
  then show ?thesis by simp
qed

text \<open>
  The values \<^verbatim>\<open>processRelates\<close> takes out of a node that is related: for every relation
  of the class whose field is not \<^verbatim>\<open>undefined\<close>, \<^verbatim>\<open>values[name] = data[name]\<close>.
\<close>

definition relationValues :: "string list \<Rightarrow> (string \<times> gval) list \<Rightarrow> (string \<times> gval) list" where
  "relationValues names fs =
     fold (\<lambda>name values.
             if getField fs name \<noteq> GUndefined then AList.update name (getField fs name) values
             else values)
       names []"

text \<open>
  \<^verbatim>\<open>processRelates(data, relationPath = '', dataPath = '')\<close>. The state is the store and
  \<^verbatim>\<open>this.removedRelations\<close>. The relation names of a class are pairwise distinct (they are
  the keys of an object), so the field \<^verbatim>\<open>clone[name]\<close> that one round of the loop reads
  has not been assigned by an earlier round: the model reads it from the clone as
  \<^verbatim>\<open>$clone\<close> returned it.
\<close>

type_synonym prState = "store \<times> (string \<times> (string \<times> gval) list) list option"

function processRelates :: "models \<Rightarrow> graphProcessor \<Rightarrow> gval \<Rightarrow> string \<Rightarrow> string \<Rightarrow> prState \<Rightarrow> gval \<times> prState" where
  "processRelates M gp (GModel i cls fs) relationPath dataPath st =
     (let relations = relationNames M cls;
          relate = truthy (shouldRelate gp relationPath);
          cl = clone M (GModel i cls fs) relate (nextId (fst st));
          st0 = ((fst st)\<lparr>nextId := snd cl\<rparr>, snd st)
      in if relate then
           (fst cl,
            (fst st0,
             (case snd st0 of
                None \<Rightarrow> None
              | Some removed \<Rightarrow>
                  (let values = relationValues relations fs
                   in if values \<noteq> [] then Some (AList.update dataPath values removed)
                      else Some removed))))
         else
           fold (\<lambda>name acc.
                   (case processRelates M gp (getField (modelFields (fst cl)) name)
                           (appendPath relationPath ''.'' name)
                           (appendPath dataPath ''/'' name) (snd acc) of
                      (val, st2) \<Rightarrow>
                        if val \<noteq> GUndefined
                        then (setField (fst acc) name val,
                              ((fst st2)\<lparr>written := written (fst st2) @ [oidOf (fst cl)]\<rparr>,
                               snd st2))
                        else (fst acc, st2)))
             relations (fst cl, st0))"
| "processRelates M gp (GArray i xs) relationPath dataPath st =
     (case mapS
             (\<lambda>entry st1.
                processRelates M gp (fst entry) relationPath
                  (appendPath dataPath ''/'' (showNat (snd entry))) st1)
             (indexed xs)
             ((fst st)\<lparr>nextId := Suc (nextId (fst st))\<rparr>, snd st) of
        (ys, st') \<Rightarrow> (GArray (nextId (fst st)) ys, st'))"
| "processRelates M gp GUndefined relationPath dataPath st = (GUndefined, st)"
| "processRelates M gp GNull relationPath dataPath st = (GNull, st)"
| "processRelates M gp (GBool b) relationPath dataPath st = (GBool b, st)"
| "processRelates M gp (GNum n) relationPath dataPath st = (GNum n, st)"
| "processRelates M gp (GStr s) relationPath dataPath st = (GStr s, st)"
  by pat_completeness auto
termination
  apply (relation "measure (\<lambda>(M, gp, data, relationPath, dataPath, st). size data)")
  apply (simp_all del: cloneValue.simps add: processRelates_term_entry clone_def processRelates_term_field)
  done

text \<open>\<^verbatim>\<open>data[0]\<close>.\<close>

fun firstEntry :: "gval \<Rightarrow> gval" where
  "firstEntry (GArray i (x # xs)) = x"
| "firstEntry v = GUndefined"

text \<open>
  \<^verbatim>\<open>getData()\<close>: the result, the processor with its \<^verbatim>\<open>removedRelations\<close>, and the store.
\<close>

definition getData :: "models \<Rightarrow> graphProcessor \<Rightarrow> store \<Rightarrow> gval \<times> graphProcessor \<times> store" where
  "getData M gp s =
     (case removedRelations gp of
        None \<Rightarrow> (if gp_isArray gp then gp_data gp else firstEntry (gp_data gp), gp, s)
      | Some removed \<Rightarrow>
          (case processRelates M gp (gp_data gp) [] [] (s, Some removed) of
             (d, (s', removed')) \<Rightarrow>
               (if gp_isArray gp then d else firstEntry d,
                gp\<lparr>removedRelations := removed'\<rparr>, s')))"

subsection \<open>Overrides\<close>

text \<open>
  The inner loop of \<^verbatim>\<open>collectOverrides\<close> for one relation: every option that the
  relation's graph options define with another value, and that has no override yet,
  gets an empty array of paths.
\<close>

definition noteOverrides :: "relationDef \<Rightarrow> graphProcessor \<Rightarrow> graphProcessor" where
  "noteOverrides relation gp =
     (let graphOptions = getGraphOptions relation in
      fold (\<lambda>key gp.
              if map_of graphOptions key \<noteq> None \<and>
                 map_of graphOptions key \<noteq> map_of (gp_options gp) key \<and>
                 map_of (overrides gp) key = None
              then gp\<lparr>numOverrides := Suc (numOverrides gp),
                      overrides := overrides gp @ [(key, [])]\<rparr>
              else gp)
        (map fst (gp_options gp)) gp)"

text \<open>
  \<^verbatim>\<open>processModelClass\<close> of \<^verbatim>\<open>collectOverrides\<close>: a depth-first walk over the classes,
  each processed once (\<open>processed\<close> is the object of that name). \<open>avail\<close> holds the
  classes that are not on the stack of calls; a class on the stack is in \<open>processed\<close>
  already, so the test on \<open>avail\<close> changes no result and shows that the walk ends.
\<close>

function processModelClass :: "models \<Rightarrow> string list \<Rightarrow> string \<Rightarrow> string list \<times> graphProcessor \<Rightarrow> string list \<times> graphProcessor" where
  "processModelClass M avail cls st =
     (if cls \<in> set (fst st) \<or> cls \<notin> set avail then st
      else
        fold (\<lambda>relation st1.
                (let gp1 = noteOverrides relation (snd st1) in
                 if numOverrides gp1 < numOptions gp1
                 then processModelClass M (removeAll cls avail) (rd_related relation) (fst st1, gp1)
                 else (fst st1, gp1)))
          (relationsOf M cls) (cls # fst st, snd st))"
  by pat_completeness auto
termination
  by (relation "measure (\<lambda>(M, avail, cls, st). length avail)")
     (auto intro: length_removeAll_less)

definition collectOverrides :: "models \<Rightarrow> graphProcessor \<Rightarrow> graphProcessor" where
  "collectOverrides M gp = snd (processModelClass M (map fst M) (rootModelClass gp) ([], gp))"

text \<open>
  Modelled from the spec: \<^verbatim>\<open>modelGraphToExpression\<close> is not among the sources. It gives
  the tree of the relations that are present in the data: one node per relation name
  below a node, merged over the entries of arrays.
\<close>

datatype expr = Expr "(string \<times> expr) list"

fun exprKids :: "expr \<Rightarrow> (string \<times> expr) list" where
  "exprKids (Expr kids) = kids"

lemma size_entry_less: "x \<in> set xs \<Longrightarrow> size x < Suc (size_list size xs)"
  using size_list_estimation' [of x xs "size x" size] by simp

lemma size_getField_less:
  "size (getField fs name) < Suc (size_list (size_prod (\<lambda>x. 0) size) fs)"
  using size_getField [of fs name] by simp

function modelGraphToExpression :: "models \<Rightarrow> gval \<Rightarrow> expr \<Rightarrow> expr" where
  "modelGraphToExpression M (GModel i cls fs) e =
     Expr (fold (\<lambda>name kids.
                   if map_of fs name \<noteq> None
                   then AList.update name
                          (modelGraphToExpression M (getField fs name)
                             (case map_of kids name of Some k \<Rightarrow> k | None \<Rightarrow> Expr []))
                          kids
                   else kids)
             (relationNames M cls) (exprKids e))"
| "modelGraphToExpression M (GArray i xs) e = fold (\<lambda>x e1. modelGraphToExpression M x e1) xs e"
| "modelGraphToExpression M GUndefined e = e"
| "modelGraphToExpression M GNull e = e"
| "modelGraphToExpression M (GBool b) e = e"
| "modelGraphToExpression M (GNum n) e = e"
| "modelGraphToExpression M (GStr s) e = e"
  by pat_completeness auto
termination
  by (relation "measure (\<lambda>(M, v, e). size v)")
     (auto simp: size_getField_less size_entry_less)

text \<open>
  The setting of an option for a relation: \<^verbatim>\<open>graphOptions[key] ?? this.options[key]\<close>.
\<close>

definition effectiveOption :: "graphProcessor \<Rightarrow> relationDef \<Rightarrow> string \<Rightarrow> jsval" where
  "effectiveOption gp relation key =
     (let global = (case map_of (gp_options gp) key of Some v \<Rightarrow> v | None \<Rightarrow> JUndefined) in
      case map_of (getGraphOptions relation) key of
        Some v \<Rightarrow> if v = JNull \<or> v = JUndefined then global else v
      | None \<Rightarrow> global)"

definition pushOverridePaths :: "relationDef \<Rightarrow> string \<Rightarrow> graphProcessor \<Rightarrow> graphProcessor" where
  "pushOverridePaths relation relationPath gp =
     gp\<lparr>overrides :=
          map (\<lambda>kv. if truthy (effectiveOption gp relation (fst kv))
                     then (fst kv, snd kv @ [relationPath]) else kv)
            (overrides gp)\<rparr>"

text \<open>
  \<^verbatim>\<open>processExpression(node, modelClass, relation, relationPath = '')\<close> of
  \<^verbatim>\<open>processOverrides\<close>. The keys of a node are relation names of the class; for another
  key the lookup of the relation would fail, and the model leaves the node out.
\<close>

fun processExpression :: "models \<Rightarrow> expr \<Rightarrow> string \<Rightarrow> relationDef option \<Rightarrow> string \<Rightarrow> graphProcessor \<Rightarrow> graphProcessor" where
  "processExpression M (Expr kids) cls relation relationPath gp =
     fold (\<lambda>kid gp1.
             case List.find (\<lambda>r. rd_name r = fst kid) (relationsOf M cls) of
               Some r \<Rightarrow>
                 processExpression M (snd kid) (rd_related r) (Some r)
                   (appendPath relationPath ''.'' (fst kid)) gp1
             | None \<Rightarrow> gp1)
       kids
       (case relation of
          None \<Rightarrow> gp
        | Some r \<Rightarrow> pushOverridePaths r relationPath gp)"

definition processOverrides :: "models \<Rightarrow> graphProcessor \<Rightarrow> graphProcessor" where
  "processOverrides M gp =
     processExpression M (modelGraphToExpression M (gp_data gp) (Expr []))
       (rootModelClass gp) None [] gp"

text \<open>
  The constructor. Modelled from the spec: \<^verbatim>\<open>ensureModelArray\<close> is not among the sources;
  it normalises the data to an array, a new one around a single entity.
\<close>

record settings =
  processOverridesSetting :: bool
  restoreRelationsSetting :: bool

definition newGraphProcessor :: "models \<Rightarrow> string \<Rightarrow> gval \<Rightarrow> (string \<times> jsval) list \<Rightarrow> settings \<Rightarrow> store \<Rightarrow> graphProcessor \<times> store" where
  "newGraphProcessor M rootClass d opts settings s =
     (let arr = (case d of GArray i xs \<Rightarrow> (True, d, s)
                 | _ \<Rightarrow> (False, GArray (nextId s) [d], s\<lparr>nextId := Suc (nextId s)\<rparr>));
          gp0 = \<lparr> rootModelClass = rootClass, gp_data = fst (snd arr), gp_isArray = fst arr,
                  gp_options = opts, overrides = [], numOptions = length opts,
                  numOverrides = 0, removedRelations = None \<rparr>;
          gp1 = (if processOverridesSetting settings
                 then (let gp' = collectOverrides M gp0
                       in if 0 < numOverrides gp' then processOverrides M gp' else gp')
                 else gp0)
      in (gp1\<lparr>removedRelations := (if restoreRelationsSetting settings then Some [] else None)\<rparr>,
          snd (snd arr)))"

subsection \<open>Restoring the relations\<close>

text \<open>
  Modelled from the spec: \<^verbatim>\<open>getDataPath\<close> of @ditojs/utils is not among the sources. It
  walks the segments of the path, separated by slashes, from the given value: a field
  of an object, an index of an array; a segment that is not there is an error.
  \<^verbatim>\<open>restoreRelations\<close> assigns to the object it finds, which the model does at the place
  of the object in the tree.
\<close>

definition arrayIndex :: "string \<Rightarrow> nat \<Rightarrow> nat option" where
  "arrayIndex part n = List.find (\<lambda>k. showNat k = part) [0..<n]"

fun modifyAtPath :: "(gval \<Rightarrow> error + gval) \<Rightarrow> string list \<Rightarrow> gval \<Rightarrow> error + gval" where
  "modifyAtPath f [] v = f v"
| "modifyAtPath f (p # ps) (GModel i cls fs) =
     (case map_of fs p of
        None \<Rightarrow> Inl (InvalidPath p)
      | Some v \<Rightarrow>
          (case modifyAtPath f ps v of
             Inl e \<Rightarrow> Inl e
           | Inr v' \<Rightarrow> Inr (GModel i cls (AList.update p v' fs))))"
| "modifyAtPath f (p # ps) (GArray i xs) =
     (case arrayIndex p (length xs) of
        None \<Rightarrow> Inl (InvalidPath p)
      | Some k \<Rightarrow>
          (case modifyAtPath f ps (xs ! k) of
             Inl e \<Rightarrow> Inl e
           | Inr v' \<Rightarrow> Inr (GArray i (xs[k := v']))))"
| "modifyAtPath f (p # ps) v = Inl (InvalidPath p)"

text \<open>\<^verbatim>\<open>for (const key in values) obj[key] = values[key]\<close>.\<close>

fun assignValues :: "(string \<times> gval) list \<Rightarrow> gval \<Rightarrow> error + gval" where
  "assignValues values (GModel i cls fs) =
     Inr (GModel i cls (fold (\<lambda>kv fs1. AList.update (fst kv) (snd kv) fs1) values fs))"
| "assignValues values (GArray i xs) = (if values = [] then Inr (GArray i xs) else Inl Unmodelled)"
| "assignValues values v = (if values = [] then Inr v else Inl JsTypeError)"



subsection \<open>An example graph\<close>

text \<open>
  A person owns its pets, and the graph options of the relation override
  \<^verbatim>\<open>relate\<close> to false; the employer of a person, the vet of a pet and the owner of a
  company are relations to entities that exist on their own.
  \<open>exampleProcessor\<close> is the processor that the constructor builds for the graph with
  the option \<^verbatim>\<open>relate: true\<close> and both settings.
\<close>

definition exampleModels :: models where
  "exampleModels =
     [(''Person'',
        [\<lparr>rd_name = ''pets'', rd_graphOptions = Some [(''relate'', JBool False)], rd_owner = True,
           rd_related = ''Pet''\<rparr>,
         \<lparr>rd_name = ''employer'', rd_graphOptions = None, rd_owner = False, rd_related = ''Company''\<rparr>]),
      (''Pet'',
        [\<lparr>rd_name = ''vet'', rd_graphOptions = None, rd_owner = False, rd_related = ''Person''\<rparr>]),
      (''Company'',
        [\<lparr>rd_name = ''owner'', rd_graphOptions = None, rd_owner = False, rd_related = ''Person''\<rparr>])]"

definition exampleGraph :: gval where
  "exampleGraph =
     GModel 0 ''Person''
       [(''id'', GNum 1),
        (''pets'', GArray 1 [GModel 2 ''Pet'' [(''id'', GNum 10), (''vet'', GModel 3 ''Person'' [(''id'', GNum 3)])]]),
        (''name'', GStr ''Joe''),
        (''employer'', GModel 4 ''Company''
           [(''id'', GNum 20), (''owner'', GModel 5 ''Person'' [(''id'', GNum 2), (''name'', GStr ''Jane'')]),
            (''name'', GStr ''ACME'')])]"

definition exampleStore :: store where
  "exampleStore = \<lparr>nextId = 6, written = []\<rparr>"

definition bothSettings :: settings where
  "bothSettings = \<lparr>processOverridesSetting = True, restoreRelationsSetting = True\<rparr>"


definition exampleProcessor :: graphProcessor where
  "exampleProcessor =
     \<lparr>rootModelClass = ''Person'', gp_data = GArray 6 [exampleGraph], gp_isArray = False,
      gp_options = [(''relate'', JBool True)],
      overrides = [(''relate'', [''pets.vet'', ''employer'', ''employer.owner''])],
      numOptions = 1, numOverrides = 1, removedRelations = Some []\<rparr>"

subsection \<open>Graphs up to the identity of their objects\<close>

text \<open>
  The structure of a graph: the graph with the identities of its objects forgotten. Two
  graphs are structurally identical when \<open>erase\<close> maps them to the same value.
\<close>

fun erase :: "gval \<Rightarrow> gval" where
  "erase (GModel i cls fs) = GModel 0 cls (map (\<lambda>kv. (fst kv, erase (snd kv))) fs)"
| "erase (GArray i xs) = GArray 0 (map erase xs)"
| "erase v = v"

definition eraseFields :: "(string \<times> gval) list \<Rightarrow> (string \<times> gval) list" where
  "eraseFields fs = map (\<lambda>kv. (fst kv, erase (snd kv))) fs"

definition eraseEntry :: "string \<times> (string \<times> gval) list \<Rightarrow> string \<times> (string \<times> gval) list" where
  "eraseEntry e = (fst e, eraseFields (snd e))"

text \<open>\<^verbatim>\<open>obj[key] = value\<close> for an entry \<open>(key, value)\<close>.\<close>

definition putEntry :: "'k \<times> 'v \<Rightarrow> ('k \<times> 'v) list \<Rightarrow> ('k \<times> 'v) list" where
  "putEntry kv m = AList.update (fst kv) (snd kv) m"

fun flatMap :: "('a \<Rightarrow> 'b list) \<Rightarrow> 'a list \<Rightarrow> 'b list" where
  "flatMap f [] = []"
| "flatMap f (x # xs) = f x @ flatMap f xs"

lemma flatMap_cong [fundef_cong]:
  "xs = ys \<Longrightarrow> (\<And>x. x \<in> set ys \<Longrightarrow> f x = g x) \<Longrightarrow> flatMap f xs = flatMap g ys"
  by (induction ys arbitrary: xs) auto

subsection \<open>The conversion to references, worded after the specification\<close>

text \<open>
  The specification of \<^verbatim>\<open>processRelates\<close> as two functions of the graph. \<open>stubOf\<close> is
  the graph that is written: an entity whose relation path relates keeps the fields
  that are no relations; another entity keeps its fields, the relations replaced by
  their conversion, whose relation path has the name of the relation appended; the
  entries of an array are converted at the relation path of the array.
\<close>

function stubOf :: "models \<Rightarrow> graphProcessor \<Rightarrow> gval \<Rightarrow> string \<Rightarrow> gval" where
  "stubOf M gp (GModel i cls fs) relationPath =
     (if truthy (shouldRelate gp relationPath)
      then GModel i cls (filter (\<lambda>kv. fst kv \<notin> set (relationNames M cls)) fs)
      else GModel i cls
             (fold (\<lambda>name flds.
                      (let val = stubOf M gp (getField fs name) (appendPath relationPath ''.'' name)
                       in if val \<noteq> GUndefined then AList.update name val flds else flds))
                (relationNames M cls) fs))"
| "stubOf M gp (GArray i xs) relationPath = GArray i (map (\<lambda>x. stubOf M gp x relationPath) xs)"
| "stubOf M gp GUndefined relationPath = GUndefined"
| "stubOf M gp GNull relationPath = GNull"
| "stubOf M gp (GBool b) relationPath = GBool b"
| "stubOf M gp (GNum n) relationPath = GNum n"
| "stubOf M gp (GStr s) relationPath = GStr s"
  by pat_completeness auto
termination
  apply (relation "measure (\<lambda>(M, gp, v, rp). size v)")
  apply (simp_all add: size_getField_less size_entry_less)
  done

text \<open>
  \<open>removalsOf\<close> lists what is recorded in the removed-relations map, in order: for
  every entity that is converted to a reference, and has a relation that is not
  \<^verbatim>\<open>undefined\<close>, its data path with the values of its relations. The data path of a
  relation appends the name of the relation after a slash, the one of an array entry
  its index.
\<close>

function removalsOf :: "models \<Rightarrow> graphProcessor \<Rightarrow> gval \<Rightarrow> string \<Rightarrow> string \<Rightarrow> (string \<times> (string \<times> gval) list) list" where
  "removalsOf M gp (GModel i cls fs) relationPath dataPath =
     (if truthy (shouldRelate gp relationPath)
      then (let values = relationValues (relationNames M cls) fs
            in if values \<noteq> [] then [(dataPath, values)] else [])
      else flatMap (\<lambda>name. removalsOf M gp (getField fs name)
                              (appendPath relationPath ''.'' name)
                              (appendPath dataPath ''/'' name))
             (relationNames M cls))"
| "removalsOf M gp (GArray i xs) relationPath dataPath =
     flatMap (\<lambda>entry. removalsOf M gp (fst entry) relationPath
                          (appendPath dataPath ''/'' (showNat (snd entry))))
       (indexed xs)"
| "removalsOf M gp GUndefined relationPath dataPath = []"
| "removalsOf M gp GNull relationPath dataPath = []"
| "removalsOf M gp (GBool b) relationPath dataPath = []"
| "removalsOf M gp (GNum n) relationPath dataPath = []"
| "removalsOf M gp (GStr s) relationPath dataPath = []"
  by pat_completeness auto
termination
  apply (relation "measure (\<lambda>(M, gp, v, rp, dp). size v)")
  apply (simp_all add: size_getField_less processRelates_term_entry)
  done

text \<open>
  What a call may do to the store: it creates objects, and the objects it assigns a
  property of are among those it has created.
\<close>

definition freshFrom :: "store \<Rightarrow> store \<Rightarrow> bool" where
  "freshFrom s s' =
     (nextId s \<le> nextId s' \<and> set (written s') \<subseteq> set (written s) \<union> {j. nextId s \<le> j})"

text \<open>The identities of the objects of a graph.\<close>

fun oids :: "gval \<Rightarrow> nat list" where
  "oids (GModel i cls fs) = i # concat (map (\<lambda>kv. oids (snd kv)) fs)"
| "oids (GArray i xs) = i # concat (map oids xs)"
| "oids v = []"

subsection \<open>The round trip\<close>

text \<open>
  The same data: two graphs that agree up to the identity of their objects, the order
  of the properties of an object, and properties that are \<^verbatim>\<open>undefined\<close>.
\<close>

lemma size_zip_entry: "x \<in> set (zip xs ys) \<Longrightarrow> size (fst x) < Suc (size_list size xs)"
proof -
  assume "x \<in> set (zip xs ys)"
  then have "fst x \<in> set xs" by (metis prod.collapse set_zip_leftD)
  then show ?thesis by (rule size_entry_less)
qed

function sameData :: "gval \<Rightarrow> gval \<Rightarrow> bool" where
  "sameData (GModel i cls fs) v =
     (case v of
        GModel j cls' fs' \<Rightarrow>
          cls = cls' \<and>
          list_all (\<lambda>name. sameData (getField fs name) (getField fs' name))
            (map fst fs @ map fst fs')
      | _ \<Rightarrow> False)"
| "sameData (GArray i xs) v =
     (case v of
        GArray j ys \<Rightarrow>
          length xs = length ys \<and> list_all (\<lambda>e. sameData (fst e) (snd e)) (zip xs ys)
      | _ \<Rightarrow> False)"
| "sameData GUndefined v = (v = GUndefined)"
| "sameData GNull v = (v = GNull)"
| "sameData (GBool b) v = (v = GBool b)"
| "sameData (GNum n) v = (v = GNum n)"
| "sameData (GStr s) v = (v = GStr s)"
  by pat_completeness auto
termination
  apply (relation "measure (\<lambda>(v, w). size v)")
  apply (simp_all add: size_getField_less size_zip_entry split_def)
  done



text \<open>Restoring entries whose paths are lists of segments.\<close>

definition restoreEntries :: "(string list \<times> (string \<times> gval) list) list \<Rightarrow> gval \<Rightarrow> error + gval" where
  "restoreEntries entries v =
     forEach (\<lambda>entry d. modifyAtPath (assignValues (snd entry)) (fst entry) d) entries v"


subsection \<open>The overrides of a processor\<close>







section \<open>Properties of the query builder\<close>

subsection \<open>Splitting\<close>

lemma matchSep_absent:
  "sep \<notin> set s \<Longrightarrow> matchSep pre sep post s = None"
proof -
  assume a: "sep \<notin> set s"
  show ?thesis
  proof (cases "dropWhile pre s")
    case Nil
    show ?thesis unfolding matchSep_def Nil by simp
  next
    case (Cons c r)
    then have "c \<in> set (dropWhile pre s)" by simp
    then have "c \<in> set s" by (rule set_dropWhileD)
    with a have "c \<noteq> sep" by auto
    then show ?thesis unfolding matchSep_def Cons by simp
  qed
qed

lemma splitRe_absent:
  "sep \<notin> set s \<Longrightarrow> splitRe pre sep post acc s = [rev acc @ s]"
proof (induction s arbitrary: acc)
  case Nil
  then show ?case by simp
next
  case (Cons c cs)
  then have "matchSep pre sep post (c # cs) = None" by (intro matchSep_absent)
  moreover from Cons.prems have "sep \<notin> set cs" by simp
  ultimately show ?case using Cons.IH [of "c # acc"] by simp
qed

lemma queryFilters_empty: "queryFilters ''empty'' = Some filter_empty"
  by (simp add: queryFilters_def queryFiltersLiteral_def operators_def)

lemma queryFilters_notEmpty: "queryFilters ''notEmpty'' = Some filter_notEmpty"
  by (simp add: queryFilters_def queryFiltersLiteral_def operators_def)

lemma queryFilters_null: "queryFilters ''null'' = Some filter_null"
  by (simp add: queryFilters_def queryFiltersLiteral_def operators_def)

lemma queryFilters_eq: "queryFilters ''eq'' = Some (operatorFilter ''='')"
  by (simp add: queryFilters_def queryFiltersLiteral_def operators_def)

text \<open>
  C6. For every resolved column reference the \<^verbatim>\<open>empty\<close> filter compiles to the
  instruction with method \<^verbatim>\<open>where\<close> and arguments column, \<^verbatim>\<open>=\<close>, empty string, and
  \<^verbatim>\<open>notEmpty\<close> to column, \<^verbatim>\<open>>\<close>, empty string. A filter key without an operator suffix
  (no colon) whose value is \<^verbatim>\<open>null\<close> is dispatched to the null filter: the query
  receives \<^verbatim>\<open>whereNull\<close> on the column alone, never a comparison with \<^verbatim>\<open>NULL\<close>.
\<close>

theorem empty_notEmpty_null_filters:
  assumes "CHR '':'' \<notin> set k"
    and "getPropertyRefs E (JStr k) False True b = Inr ([ref], b1)"
  shows "queryFilters ''empty'' = Some filter_empty \<and>
         filter_empty r v =
           Inr \<lparr>method = ''where'', args = [JStr (fullColumnName r), JStr ''='', JStr '''']\<rparr> \<and>
         queryFilters ''notEmpty'' = Some filter_notEmpty \<and>
         filter_notEmpty r v =
           Inr \<lparr>method = ''where'', args = [JStr (fullColumnName r), JStr ''>'', JStr '''']\<rparr> \<and>
         chooseQueryFilter (splitColon k) JNull = Some filter_null \<and>
         filter_null r v = Inr \<lparr>method = ''whereNull'', args = [JStr (fullColumnName r)]\<rparr> \<and>
         parseQueryFilter E k JNull b =
           Inr (issue (Call ''whereNull'' [JStr (fullColumnName ref)]) (noteRelationToJoin b1 ref))"
proof -
  have sp: "splitColon k = [k]"
    using assms(1) by (simp add: splitColon_def splitRe_absent)
  have ch': "chooseQueryFilter [k] JNull = Some filter_null"
    by (simp add: chooseQueryFilter_def queryFilters_null)
  have ch: "chooseQueryFilter (splitColon k) JNull = Some filter_null"
    by (simp add: sp ch')
  have nl: "\<And>x. filter_null x v = Inr \<lparr>method = ''whereNull'', args = [JStr (fullColumnName x)]\<rparr>"
    by (simp add: filter_null_def whereInstr_def)
  have pq: "parseQueryFilter E k JNull b =
           Inr (issue (Call ''whereNull'' [JStr (fullColumnName ref)]) (noteRelationToJoin b1 ref))"
    using assms(2) by (simp add: parseQueryFilter_def Let_def sp ch' applyQueryFilter_def filter_null_def whereInstr_def)
  show ?thesis
    by (simp add: queryFilters_empty queryFilters_notEmpty ch nl pq filter_empty_def filter_notEmpty_def whereInstr_def)
qed

theorem empty_notEmpty_null_filters_witness:
  "CHR '':'' \<notin> set ''lastName'' \<and>
   getPropertyRefs exampleEnv (JStr ''lastName'') False True newQueryBuilder =
     Inr ([examplePropertyRef (JStr ''lastName'')],
          newQueryBuilder\<lparr>propertyRefsCache := [(''lastName'', examplePropertyRef (JStr ''lastName''))],
                          allocated := 1\<rparr>) \<and>
   parseQueryFilter exampleEnv ''lastName'' JNull newQueryBuilder =
     Inr (issue (Call ''whereNull'' [JStr ''Person.lastName''])
            (newQueryBuilder\<lparr>propertyRefsCache := [(''lastName'', examplePropertyRef (JStr ''lastName''))],
                          allocated := 1\<rparr>))"
proof -
  have h1: "CHR '':'' \<notin> set ''lastName''" by simp
  have h2: "getPropertyRefs exampleEnv (JStr ''lastName'') False True newQueryBuilder =
     Inr ([examplePropertyRef (JStr ''lastName'')],
          newQueryBuilder\<lparr>propertyRefsCache := [(''lastName'', examplePropertyRef (JStr ''lastName''))],
                          allocated := 1\<rparr>)"
    by (simp add: getPropertyRefs_def Let_def splitPipe_def matchSep_def isWhiteSpace_def ownKey_def
        objectPrototypeKeys_def newQueryBuilder_def exampleEnv_def examplePropertyRef_def)
  from empty_notEmpty_null_filters [OF h1 h2]
  show ?thesis using h1 h2
    by (simp add: noteRelationToJoin_def examplePropertyRef_def)
qed

subsection \<open>The where handler\<close>

lemma forEach_append:
  "forEach f (xs @ ys) s = (case forEach f xs s of Inl e \<Rightarrow> Inl e | Inr s' \<Rightarrow> forEach f ys s')"
  by (induction xs arbitrary: s) (auto split: sum.splits)

lemma forEach_concat_map:
  "forEach f (concat (map g xs)) s = forEach (\<lambda>x s. forEach f (g x) s) xs s"
  by (induction xs arbitrary: s) (auto simp: forEach_append split: sum.splits)

lemma processPropertyRefs_flatten:
  "processPropertyRefs pqf (Some key) v (Some path) s =
     forEach (\<lambda>rv s. pqf (fst rv) (snd rv) s) (flattenWhere path key v) s"
proof (induction path key v arbitrary: s rule: flattenWhere.induct)
  case (1 path key kvs)
  have "forEach (\<lambda>(subKey, subValue) s. processPropertyRefs pqf (Some subKey) subValue (Some (path @ [key])) s) kvs s
      = forEach (\<lambda>kv s. forEach (\<lambda>rv s. pqf (fst rv) (snd rv) s) (case kv of (subKey, subValue) \<Rightarrow> flattenWhere (path @ [key]) subKey subValue) s) kvs s"
    by (rule forEach_cong) (auto simp: 1)
  then show ?case by (simp add: forEach_concat_map)
qed (auto simp: Let_def split: sum.splits)

lemma inQueryFilters_like: "inQueryFilters ''like''"
  by (simp add: inQueryFilters_def queryFilters_def queryFiltersLiteral_def operators_def)

lemma not_inQueryFilters_firstName: "\<not> inQueryFilters ''firstName''"
  by (simp add: inQueryFilters_def queryFilters_def queryFiltersLiteral_def operators_def objectPrototypeKeys_def)

lemma not_inQueryFilters_lastName: "\<not> inQueryFilters ''lastName''"
  by (simp add: inQueryFilters_def queryFilters_def queryFiltersLiteral_def operators_def objectPrototypeKeys_def)

lemma whereInstructions_example:
  "whereInstructions exampleWhere = [(''firstName:like'', JStr ''Jo%''), (''lastName'', JStr ''%oe'')]"
  by (simp add: whereInstructions_def exampleWhere_def inQueryFilters_like not_inQueryFilters_lastName)

text \<open>
  C7. The \<^verbatim>\<open>where\<close> handler flattens object notation into string filter instructions:
  on an object it applies \<^verbatim>\<open>parseQueryFilter\<close> to the instructions of the flattening, one
  after the other on the same builder (implicit AND). The object
  \<^verbatim>\<open>{ firstName: { like: 'Jo%' }, lastName: '%oe' }\<close> yields exactly \<^verbatim>\<open>firstName:like\<close> with
  \<^verbatim>\<open>'Jo%'\<close> and \<^verbatim>\<open>lastName\<close> with \<^verbatim>\<open>'%oe'\<close>, which the example model class turns into two
  \<^verbatim>\<open>where\<close> calls.
\<close>

theorem where_handler_flattens:
  "handler_where E b key (JObj kvs) =
     forEach (\<lambda>rv b. parseQueryFilter E (fst rv) (snd rv) b) (whereInstructions kvs) b \<and>
   whereInstructions exampleWhere =
     [(''firstName:like'', JStr ''Jo%''), (''lastName'', JStr ''%oe'')] \<and>
   map_sum id calls (handler_where exampleEnv newQueryBuilder ''where'' (JObj exampleWhere)) =
     Inr [Call ''where'' [JStr ''Person.firstName'', JStr ''like'', JStr ''Jo%''],
          Call ''where'' [JStr ''Person.lastName'', JStr ''='', JStr ''%oe'']]"
proof -
  have a: "handler_where E b key (JObj kvs) =
     forEach (\<lambda>rv b. parseQueryFilter E (fst rv) (snd rv) b) (whereInstructions kvs) b" for E b key kvs
  proof -
    have "forEach (\<lambda>(subKey, subValue) s. processPropertyRefs (parseQueryFilter E) (Some subKey) subValue (Some []) s) kvs b
      = forEach (\<lambda>kv s. forEach (\<lambda>rv b. parseQueryFilter E (fst rv) (snd rv) b) (case kv of (key, v) \<Rightarrow> flattenWhere [] key v) s) kvs b"
      by (rule forEach_cong) (auto simp: processPropertyRefs_flatten)
    then show ?thesis
      by (simp add: handler_where_def whereInstructions_def forEach_concat_map)
  qed
  have c: "map_sum id calls (forEach (\<lambda>rv b. parseQueryFilter exampleEnv (fst rv) (snd rv) b)
             [(''firstName:like'', JStr ''Jo%''), (''lastName'', JStr ''%oe'')] newQueryBuilder) =
     Inr [Call ''where'' [JStr ''Person.firstName'', JStr ''like'', JStr ''Jo%''],
          Call ''where'' [JStr ''Person.lastName'', JStr ''='', JStr ''%oe'']]"
    by code_simp
  show ?thesis
    using c by (simp add: a whereInstructions_example)
qed

subsection \<open>The allow-list of find and findOne\<close>

lemma forEach_append_fail:
  "forEach f pre s = Inr s1 \<Longrightarrow> f x s1 = Inl e \<Longrightarrow> forEach f (pre @ x # post) s = Inl e"
  by (simp add: forEach_append)

text \<open>
  C3, as stated, fails: with the allowed list \<^verbatim>\<open>['where']\<close> the structural key \<^verbatim>\<open>eager\<close>,
  which has a registered handler, is rejected.
\<close>

theorem find_allowed_gate_counterexample:
  "find exampleEnv [(''eager'', JStr ''author'')] (Some [''where'']) newQueryBuilder =
     Inl (NotAllowed ''eager'')"
  by (simp add: find_def findEntry_def ownKey_def objectPrototypeKeys_def)

lemma findEntry_own:
  "ownKey key \<Longrightarrow>
   findEntry E (Some ks) (key, v) b =
     (if key \<in> set ks
      then (case queryHandlers E key of Some h \<Rightarrow> h b key v | None \<Rightarrow> Inr b)
      else Inl (NotAllowed key))"
  by (simp add: findEntry_def lookupHandler_def split: option.splits)

lemma findEntry_own_open:
  "ownKey key \<Longrightarrow>
   findEntry E None (key, v) b =
     (case queryHandlers E key of
        Some h \<Rightarrow> h b key v
      | None \<Rightarrow> Inl (InvalidQueryParameter key v))"
  by (simp add: findEntry_def lookupHandler_def split: option.splits)

lemma findEntry_inherited:
  assumes "\<not> ownKey key"
  shows "findEntry E allowed (key, v) b = inheritedMember key b key v"
  using assms by (cases allowed) (simp_all add: findEntry_def lookupHandler_def)

lemma inheritedMember_not_NotAllowed: "inheritedMember name b key v \<noteq> Inl (NotAllowed k)"
  by (simp add: inheritedMember_def)

text \<open>
  C3, amended. With an allowed list, every top-level key absent from the list raises
  the QueryError "Query parameter ... is not allowed", whether or not a handler is
  registered for it, and \<^verbatim>\<open>find\<close> fails with it once the keys before it have been
  handled; a key in the list is dispatched to its handler, or passes when it has none.
  Without an allowed list every key is dispatched, and a key without a handler raises
  "Invalid query parameter". The exception are the names every object inherits from
  \<^verbatim>\<open>Object.prototype\<close>: both lookups find the inherited member, so such a key is never
  rejected as not allowed; the member is called as the handler.
\<close>

theorem find_allowed_gate:
  "(ownKey key \<and> key \<notin> set ks \<longrightarrow> findEntry E (Some ks) (key, v) b = Inl (NotAllowed key)) \<and>
   (ownKey key \<and> key \<in> set ks \<longrightarrow>
      findEntry E (Some ks) (key, v) b =
        (case queryHandlers E key of Some h \<Rightarrow> h b key v | None \<Rightarrow> Inr b)) \<and>
   (ownKey key \<longrightarrow>
      findEntry E None (key, v) b =
        (case queryHandlers E key of
           Some h \<Rightarrow> h b key v
         | None \<Rightarrow> Inl (InvalidQueryParameter key v))) \<and>
   (\<not> ownKey key \<longrightarrow>
      findEntry E allowed (key, v) b = inheritedMember key b key v \<and>
      findEntry E allowed (key, v) b \<noteq> Inl (NotAllowed key)) \<and>
   (ownKey key \<and> key \<notin> set ks \<longrightarrow>
    forEach (findEntry E (Some ks)) pre (b\<lparr>relationsToJoin := []\<rparr>) = Inr b1 \<longrightarrow>
      find E (pre @ (key, v) # post) (Some ks) b = Inl (NotAllowed key))"
proof -
  have d: "ownKey key \<Longrightarrow> key \<notin> set ks \<Longrightarrow>
          forEach (findEntry E (Some ks)) pre (b\<lparr>relationsToJoin := []\<rparr>) = Inr b1 \<Longrightarrow>
            find E (pre @ (key, v) # post) (Some ks) b = Inl (NotAllowed key)"
    using findEntry_own [of key E ks v b1] by (simp add: find_def forEach_append)
  have i: "\<not> ownKey key \<Longrightarrow> findEntry E allowed (key, v) b \<noteq> Inl (NotAllowed key)"
    using findEntry_inherited [of key E allowed v b] inheritedMember_not_NotAllowed [of key b key v key]
    by simp
  show ?thesis
    using d i findEntry_own [of key E ks v b] findEntry_own_open [of key E v b]
      findEntry_inherited [of key E allowed v b]
    by simp
qed

theorem find_allowed_gate_witness:
  "ownKey ''limit'' \<and> ''limit'' \<notin> set [''eager'', ''range''] \<and> ''eager'' \<in> set [''eager'', ''range''] \<and>
   queryHandlers exampleEnv ''limit'' = Some handler_limit \<and>
   forEach (findEntry exampleEnv (Some [''eager'', ''range'']))
     [(''eager'', JStr ''books'')] (newQueryBuilder\<lparr>relationsToJoin := []\<rparr>) =
       Inr (newQueryBuilder\<lparr>applyDefaultEager := False, eagerExpression := Some [JStr ''books'']\<rparr>) \<and>
   find exampleEnv [(''eager'', JStr ''books''), (''limit'', JNum 5), (''range'', JStr ''2,4'')]
     (Some [''eager'', ''range'']) newQueryBuilder = Inl (NotAllowed ''limit'') \<and>
   findEntry exampleEnv None (''limit'', JNum 5) newQueryBuilder =
     Inr (issue (Call ''limit'' [JNum 5]) newQueryBuilder) \<and>
   \<not> ownKey ''constructor'' \<and> ''constructor'' \<notin> set [''eager'', ''range''] \<and>
   findEntry exampleEnv (Some [''eager'', ''range'']) (''constructor'', JNum 1) newQueryBuilder =
     Inr newQueryBuilder \<and>
   \<not> ownKey ''valueOf'' \<and>
   findEntry exampleEnv (Some [''eager'', ''range'']) (''valueOf'', JNum 1) newQueryBuilder =
     Inl JsTypeError"
proof -
  have h1: "ownKey ''limit''"
    by (simp add: ownKey_def objectPrototypeKeys_def)
  have h2: "''limit'' \<notin> set [''eager'', ''range'']" by simp
  have h3: "queryHandlers exampleEnv ''limit'' = Some handler_limit"
    by (simp add: queryHandlers_def joinKeys_def)
  have h4: "forEach (findEntry exampleEnv (Some [''eager'', ''range'']))
     [(''eager'', JStr ''books'')] (newQueryBuilder\<lparr>relationsToJoin := []\<rparr>) =
       Inr (newQueryBuilder\<lparr>applyDefaultEager := False, eagerExpression := Some [JStr ''books'']\<rparr>)"
    by (simp add: findEntry_def lookupHandler_def ownKey_def objectPrototypeKeys_def queryHandlers_def
        joinKeys_def handler_eager_def mergeEager_def eager_def objection_eager_def exampleEnv_def
        newQueryBuilder_def)
  have h5: "\<not> ownKey ''constructor''" "\<not> ownKey ''valueOf''"
    by (simp_all add: ownKey_def objectPrototypeKeys_def)
  from find_allowed_gate [where key = "''limit''" and ks = "[''eager'', ''range'']" and E = exampleEnv
      and v = "JNum 5" and b = newQueryBuilder and pre = "[(''eager'', JStr ''books'')]"
      and ?b1.0 = "newQueryBuilder\<lparr>applyDefaultEager := False, eagerExpression := Some [JStr ''books'']\<rparr>"
      and post = "[(''range'', JStr ''2,4'')]"]
    find_allowed_gate [where key = "''constructor''" and E = exampleEnv and v = "JNum 1"
      and b = newQueryBuilder and allowed = "Some [''eager'', ''range'']"]
    find_allowed_gate [where key = "''valueOf''" and E = exampleEnv and v = "JNum 1"
      and b = newQueryBuilder and allowed = "Some [''eager'', ''range'']"]
  show ?thesis using h1 h2 h3 h4 h5
    by (simp add: handler_limit_def inheritedMember_def)
qed








subsection \<open>The cache of property references\<close>

lemma resolveRefs_cache_mono:
  "resolveRefs E pd ca refs b = Inr (rs, b1) \<Longrightarrow>
   map_of (propertyRefsCache b) k = Some r \<Longrightarrow> map_of (propertyRefsCache b1) k = Some r"
proof (induction refs arbitrary: b rs)
  case Nil
  then show ?case by simp
next
  case (Cons ref refs)
  show ?case
  proof (cases "map_of (propertyRefsCache b) (jsToString ref)")
    case None
    with Cons.prems(1) obtain r0 rs' where
      n: "newPropertyRef E ref pd (if ca then allow b else None) = Inr r0" and
      rec: "resolveRefs E pd ca refs
              (b\<lparr>propertyRefsCache := propertyRefsCache b @ [(jsToString ref, r0\<lparr>oid := allocated b\<rparr>)],
                 allocated := Suc (allocated b)\<rparr>) = Inr (rs', b1)"
      by (auto simp: Let_def split: if_splits sum.splits)
    from Cons.prems(2) have
      "map_of (propertyRefsCache (b\<lparr>propertyRefsCache := propertyRefsCache b @ [(jsToString ref, r0\<lparr>oid := allocated b\<rparr>)],
                 allocated := Suc (allocated b)\<rparr>)) k = Some r"
      by (simp add: map_add_Some_iff)
    with Cons.IH [OF rec] show ?thesis .
  next
    case (Some r')
    with Cons.prems(1) obtain rs' where
      rec: "resolveRefs E pd ca refs b = Inr (rs', b1)"
      by (auto simp: Let_def split: if_splits sum.splits)
    from Cons.IH [OF rec Cons.prems(2)] show ?thesis .
  qed
qed

lemma resolveRefs_cached:
  "resolveRefs E pd ca refs b = Inr (rs, b1) \<Longrightarrow>
   list_all2 (\<lambda>ref r. ownKey (jsToString ref) \<and> map_of (propertyRefsCache b1) (jsToString ref) = Some r) refs rs"
proof (induction refs arbitrary: b rs)
  case Nil
  then show ?case by simp
next
  case (Cons ref refs)
  from Cons.prems have own: "ownKey (jsToString ref)"
    by (auto split: if_splits)
  show ?case
  proof (cases "map_of (propertyRefsCache b) (jsToString ref)")
    case None
    with Cons.prems own obtain r0 rs' where
      rs: "rs = r0\<lparr>oid := allocated b\<rparr> # rs'" and
      rec: "resolveRefs E pd ca refs
              (b\<lparr>propertyRefsCache := propertyRefsCache b @ [(jsToString ref, r0\<lparr>oid := allocated b\<rparr>)],
                 allocated := Suc (allocated b)\<rparr>) = Inr (rs', b1)"
      by (auto simp: Let_def split: sum.splits)
    have "map_of (propertyRefsCache (b\<lparr>propertyRefsCache := propertyRefsCache b @ [(jsToString ref, r0\<lparr>oid := allocated b\<rparr>)],
                 allocated := Suc (allocated b)\<rparr>)) (jsToString ref) = Some (r0\<lparr>oid := allocated b\<rparr>)"
      using None by (simp add: map_add_Some_iff)
    from resolveRefs_cache_mono [OF rec this] Cons.IH [OF rec] own rs
    show ?thesis by simp
  next
    case (Some r')
    with Cons.prems own obtain rs' where
      rs: "rs = r' # rs'" and rec: "resolveRefs E pd ca refs b = Inr (rs', b1)"
      by (auto simp: Let_def split: sum.splits)
    from resolveRefs_cache_mono [OF rec Some] Cons.IH [OF rec] own rs
    show ?thesis by simp
  qed
qed

lemma resolveRefs_hit:
  "list_all2 (\<lambda>ref r. ownKey (jsToString ref) \<and> map_of (propertyRefsCache b) (jsToString ref) = Some r) refs rs \<Longrightarrow>
   resolveRefs E pd ca refs b = Inr (rs, b)"
  by (induction refs rs rule: list_all2_induct) simp_all

text \<open>
  C8. On one builder, resolving references is idempotent: once \<^verbatim>\<open>getPropertyRefs\<close> has
  returned for a reference string, a second call with the same string (whatever its
  options) returns the same PropertyRef objects, identities included, and leaves the
  builder as it is: the cache is unchanged and no further object is constructed.
\<close>

theorem getPropertyRefs_cached:
  assumes "getPropertyRefs E refs parseDir checkAllow b = Inr (rs, b1)"
  shows "getPropertyRefs E refs parseDir' checkAllow' b1 = Inr (rs, b1)"
proof -
  from assms obtain rl where rl: "refList refs = Inr rl"
    and r: "resolveRefs E parseDir checkAllow rl b = Inr (rs, b1)"
    by (auto simp: getPropertyRefs_def split: sum.splits)
  from resolveRefs_hit [OF resolveRefs_cached [OF r]]
  show ?thesis
    by (simp add: getPropertyRefs_def rl)
qed

theorem getPropertyRefs_cached_witness:
  "getPropertyRefs exampleEnv (JStr ''firstName | lastName'') False True newQueryBuilder =
     Inr ([examplePropertyRef (JStr ''firstName''), (examplePropertyRef (JStr ''lastName''))\<lparr>oid := 1\<rparr>],
          newQueryBuilder\<lparr>propertyRefsCache :=
             [(''firstName'', examplePropertyRef (JStr ''firstName'')),
              (''lastName'', (examplePropertyRef (JStr ''lastName''))\<lparr>oid := 1\<rparr>)],
             allocated := 2\<rparr>) \<and>
   getPropertyRefs exampleEnv (JStr ''firstName | lastName'') True False
     (newQueryBuilder\<lparr>propertyRefsCache :=
             [(''firstName'', examplePropertyRef (JStr ''firstName'')),
              (''lastName'', (examplePropertyRef (JStr ''lastName''))\<lparr>oid := 1\<rparr>)],
             allocated := 2\<rparr>) =
     Inr ([examplePropertyRef (JStr ''firstName''), (examplePropertyRef (JStr ''lastName''))\<lparr>oid := 1\<rparr>],
          newQueryBuilder\<lparr>propertyRefsCache :=
             [(''firstName'', examplePropertyRef (JStr ''firstName'')),
              (''lastName'', (examplePropertyRef (JStr ''lastName''))\<lparr>oid := 1\<rparr>)],
             allocated := 2\<rparr>)"
proof -
  have h: "getPropertyRefs exampleEnv (JStr ''firstName | lastName'') False True newQueryBuilder =
     Inr ([examplePropertyRef (JStr ''firstName''), (examplePropertyRef (JStr ''lastName''))\<lparr>oid := 1\<rparr>],
          newQueryBuilder\<lparr>propertyRefsCache :=
             [(''firstName'', examplePropertyRef (JStr ''firstName'')),
              (''lastName'', (examplePropertyRef (JStr ''lastName''))\<lparr>oid := 1\<rparr>)],
             allocated := 2\<rparr>)"
    by (simp add: getPropertyRefs_def Let_def splitPipe_def matchSep_def isWhiteSpace_def ownKey_def
        objectPrototypeKeys_def newQueryBuilder_def exampleEnv_def examplePropertyRef_def)
  from getPropertyRefs_cached [OF h, of True False] h
  show ?thesis by simp
qed

subsection \<open>Ranges\<close>


lemma queryFilters_between: "queryFilters ''between'' = Some (operatorFilter ''between'')"
  by (simp add: queryFilters_def queryFiltersLiteral_def operators_def)

lemma queryFilters_notBetween: "queryFilters ''notBetween'' = Some (operatorFilter ''not between'')"
  by (simp add: queryFilters_def queryFiltersLiteral_def operators_def)

text \<open>
  C4, as stated, fails: \<^verbatim>\<open>between\<close> with an end below its start and \<^verbatim>\<open>notBetween\<close> with a
  single element are compiled without an error, and the inverted range \<^verbatim>\<open>"10,9"\<close> is
  accepted.
\<close>

theorem range_between_validation_counterexample:
  "map_sum id calls
     (find exampleEnv [(''where'', JObj [(''age'', JObj [(''between'', JStr ''5,3'')])])] None newQueryBuilder) =
     Inr [Call ''where'' [JStr ''Person.age'', JStr ''between'', JStr ''5,3'']] \<and>
   map_sum id calls
     (find exampleEnv [(''where'', JStr ''age:notBetween=5'')] None newQueryBuilder) =
     Inr [Call ''where'' [JStr ''Person.age'', JStr ''not between'', JStr ''5'']] \<and>
   map_sum id calls (find exampleEnv [(''range'', JStr ''10,9'')] None newQueryBuilder) =
     Inr [Call ''range'' [JStr ''10'', JStr ''9'']]"
  by code_simp

text \<open>
  The bounds of a range given as a string stay strings, and \<^verbatim>\<open>end < start\<close> compares
  them as text.
\<close>

lemma range_strings_compared_as_text:
  "handler_range b key (JStr ''10,9'') = Inr (issue (Call ''range'' [JStr ''10'', JStr ''9'']) b) \<and>
   handler_range b key (JStr ''9,10'') = Inl (InvalidRange (JStr ''9'') (JStr ''10''))"
  by (simp add: handler_range_def splitRange_def matchSep_def isWhiteSpace_def elemAt_def
      isNumericString_def trimWs_def isStrDecimal_def isUnsignedDecimal_def isDigit_def isExponentPart_def)

lemma rangeParts_other: "\<not> isString v \<Longrightarrow> \<not> isArray v \<Longrightarrow> rangeParts v = Inl JsTypeError"
  by (cases v) simp_all

text \<open>
  C4, amended. The \<^verbatim>\<open>range\<close> handler ignores a falsy value. For a truthy value given as
  a string or an array it raises the QueryError "Invalid range" whenever the first or
  the second bound is missing or not numeric, and for an array that starts with two
  numbers exactly when the end is below the start; a truthy value that is neither a
  string nor an array raises a TypeError, which is no QueryError. \<^verbatim>\<open>between\<close> and
  \<^verbatim>\<open>notBetween\<close> raise no error, whatever the raw value is. An error of the handler
  makes \<^verbatim>\<open>find\<close> fail, so no plan reaches the database.
\<close>

theorem range_between_validation:
  "(\<not> truthy v \<longrightarrow> handler_range b key v = Inr b) \<and>
   (truthy v \<and> rangeParts v = Inr ps \<and> (jsIsNaN (elemAt ps 0) \<or> jsIsNaN (elemAt ps 1)) \<longrightarrow>
      handler_range b key v = Inl (InvalidRange (elemAt ps 0) (elemAt ps 1))) \<and>
   handler_range b key (JArr (JNum s # JNum e # rest)) =
     (if e < s then Inl (InvalidRange (JNum s) (JNum e))
      else Inr (issue (Call ''range'' [JNum s, JNum e]) b)) \<and>
   (truthy v \<and> \<not> isString v \<and> \<not> isArray v \<longrightarrow>
      handler_range b key v = Inl JsTypeError \<and> \<not> isQueryError JsTypeError) \<and>
   (\<exists>f g. queryFilters ''between'' = Some f \<and> queryFilters ''notBetween'' = Some g \<and>
      (\<forall>ref w. (\<exists>i. f ref w = Inr i) \<and> (\<exists>i. g ref w = Inr i))) \<and>
   (forEach (findEntry E allowed) pre (b\<lparr>relationsToJoin := []\<rparr>) = Inr b1 \<longrightarrow>
    findEntry E allowed (''range'', v) b1 = Inl err \<longrightarrow>
      find E (pre @ (''range'', v) # post) allowed b = Inl err)"
proof -
  have a: "handler_range b key (JArr (JNum s # JNum e # rest)) =
     (if e < s then Inl (InvalidRange (JNum s) (JNum e))
      else Inr (issue (Call ''range'' [JNum s, JNum e]) b))"
    by (simp add: handler_range_def elemAt_def)
  have n: "truthy v \<Longrightarrow> rangeParts v = Inr ps \<Longrightarrow> jsIsNaN (elemAt ps 0) \<or> jsIsNaN (elemAt ps 1) \<Longrightarrow>
      handler_range b key v = Inl (InvalidRange (elemAt ps 0) (elemAt ps 1))"
    by (simp add: handler_range_def Let_def)
  have c: "\<not> truthy v \<Longrightarrow> handler_range b key v = Inr b"
    by (simp add: handler_range_def)
  have t: "truthy v \<Longrightarrow> \<not> isString v \<Longrightarrow> \<not> isArray v \<Longrightarrow> handler_range b key v = Inl JsTypeError"
    by (simp add: handler_range_def rangeParts_other)
  have d: "\<exists>i. operatorFilter ''between'' ref w = Inr i"
    "\<exists>i. operatorFilter ''not between'' ref w = Inr i" for ref w
    by (simp_all add: operatorFilter_def whereInstr_def)
  have f: "forEach (findEntry E allowed) pre (b\<lparr>relationsToJoin := []\<rparr>) = Inr b1 \<Longrightarrow>
    findEntry E allowed (''range'', v) b1 = Inl err \<Longrightarrow>
      find E (pre @ (''range'', v) # post) allowed b = Inl err"
    by (simp add: find_def forEach_append)
  have q: "\<not> isQueryError JsTypeError" by simp
  from d queryFilters_between queryFilters_notBetween
  have g: "\<exists>f g. queryFilters ''between'' = Some f \<and> queryFilters ''notBetween'' = Some g \<and>
      (\<forall>ref w. (\<exists>i. f ref w = Inr i) \<and> (\<exists>i. g ref w = Inr i))"
    by blast
  from a n c t f q g show ?thesis by blast
qed

theorem range_between_validation_witness:
  "\<not> truthy (JStr '''') \<and> handler_range newQueryBuilder ''range'' (JStr '''') = Inr newQueryBuilder \<and>
   truthy (JStr ''5'') \<and> rangeParts (JStr ''5'') = Inr [JStr ''5''] \<and> jsIsNaN (elemAt [JStr ''5''] 1) \<and>
   handler_range newQueryBuilder ''range'' (JStr ''5'') = Inl (InvalidRange (JStr ''5'') JUndefined) \<and>
   truthy (JArr [JNum 5]) \<and> rangeParts (JArr [JNum 5]) = Inr [JNum 5] \<and>
   handler_range newQueryBuilder ''range'' (JArr [JNum 5]) = Inl (InvalidRange (JNum 5) JUndefined) \<and>
   truthy (JArr [JStr ''a'', JNum 1]) \<and> jsIsNaN (elemAt [JStr ''a'', JNum 1] 0) \<and>
   handler_range newQueryBuilder ''range'' (JArr [JStr ''a'', JNum 1]) =
     Inl (InvalidRange (JStr ''a'') (JNum 1)) \<and>
   handler_range newQueryBuilder ''range'' (JArr [JNum 10, JNum 9]) = Inl (InvalidRange (JNum 10) (JNum 9)) \<and>
   handler_range newQueryBuilder ''range'' (JArr [JNum 2, JNum 4]) =
     Inr (issue (Call ''range'' [JNum 2, JNum 4]) newQueryBuilder) \<and>
   truthy (JNum 7) \<and> \<not> isString (JNum 7) \<and> \<not> isArray (JNum 7) \<and>
   handler_range newQueryBuilder ''range'' (JNum 7) = Inl JsTypeError \<and>
   forEach (findEntry exampleEnv None) [(''limit'', JNum 3)] (newQueryBuilder\<lparr>relationsToJoin := []\<rparr>) =
     Inr (issue (Call ''limit'' [JNum 3]) newQueryBuilder) \<and>
   findEntry exampleEnv None (''range'', JArr [JNum 10, JNum 9]) (issue (Call ''limit'' [JNum 3]) newQueryBuilder) =
     Inl (InvalidRange (JNum 10) (JNum 9)) \<and>
   find exampleEnv [(''limit'', JNum 3), (''range'', JArr [JNum 10, JNum 9]), (''offset'', JNum 1)] None newQueryBuilder =
     Inl (InvalidRange (JNum 10) (JNum 9))"
proof -
  have sp: "rangeParts (JStr ''5'') = Inr [JStr ''5'']"
    by (simp add: splitRange_def matchSep_def isWhiteSpace_def)
  have na: "jsIsNaN (elemAt [JStr ''a'', JNum 1] 0)"
    by code_simp
  have h3: "forEach (findEntry exampleEnv None) [(''limit'', JNum 3)] (newQueryBuilder\<lparr>relationsToJoin := []\<rparr>) =
     Inr (issue (Call ''limit'' [JNum 3]) newQueryBuilder)"
    by (simp add: findEntry_def lookupHandler_def ownKey_def objectPrototypeKeys_def queryHandlers_def
        joinKeys_def handler_limit_def newQueryBuilder_def)
  have h4: "findEntry exampleEnv None (''range'', JArr [JNum 10, JNum 9]) (issue (Call ''limit'' [JNum 3]) newQueryBuilder) =
     Inl (InvalidRange (JNum 10) (JNum 9))"
    by (simp add: findEntry_def lookupHandler_def ownKey_def objectPrototypeKeys_def queryHandlers_def
        joinKeys_def handler_range_def elemAt_def)
  have r1: "handler_range newQueryBuilder ''range'' (JStr '''') = Inr newQueryBuilder"
    using range_between_validation [where v = "JStr ''''" and b = newQueryBuilder and key = "''range''"]
    by simp
  have r2: "handler_range newQueryBuilder ''range'' (JStr ''5'') = Inl (InvalidRange (JStr ''5'') JUndefined)"
    using range_between_validation [where v = "JStr ''5''" and b = newQueryBuilder and key = "''range''"
        and ps = "[JStr ''5'']"] sp
    by (simp add: elemAt_def)
  have r3: "handler_range newQueryBuilder ''range'' (JArr [JNum 5]) = Inl (InvalidRange (JNum 5) JUndefined)"
    using range_between_validation [where v = "JArr [JNum 5]" and b = newQueryBuilder and key = "''range''"
        and ps = "[JNum 5]"]
    by (simp add: elemAt_def)
  have r4: "handler_range newQueryBuilder ''range'' (JArr [JStr ''a'', JNum 1]) =
     Inl (InvalidRange (JStr ''a'') (JNum 1))"
    using range_between_validation [where v = "JArr [JStr ''a'', JNum 1]" and b = newQueryBuilder
        and key = "''range''" and ps = "[JStr ''a'', JNum 1]"] na
    by (simp add: elemAt_def)
  have r5: "handler_range newQueryBuilder ''range'' (JArr [JNum 10, JNum 9]) = Inl (InvalidRange (JNum 10) (JNum 9))"
    using range_between_validation [where b = newQueryBuilder and key = "''range''" and s = 10 and e = 9
        and rest = "[]"] by simp
  have r6: "handler_range newQueryBuilder ''range'' (JArr [JNum 2, JNum 4]) =
     Inr (issue (Call ''range'' [JNum 2, JNum 4]) newQueryBuilder)"
    using range_between_validation [where b = newQueryBuilder and key = "''range''" and s = 2 and e = 4
        and rest = "[]"] by simp
  have r7: "handler_range newQueryBuilder ''range'' (JNum 7) = Inl JsTypeError"
    using range_between_validation [where v = "JNum 7" and b = newQueryBuilder and key = "''range''"]
    by simp
  have r8: "find exampleEnv ([(''limit'', JNum 3)] @ (''range'', JArr [JNum 10, JNum 9]) # [(''offset'', JNum 1)])
      None newQueryBuilder = Inl (InvalidRange (JNum 10) (JNum 9))"
    using range_between_validation [where v = "JArr [JNum 10, JNum 9]" and E = exampleEnv
        and allowed = None and pre = "[(''limit'', JNum 3)]" and b = newQueryBuilder
        and ?b1.0 = "issue (Call ''limit'' [JNum 3]) newQueryBuilder"
        and err = "InvalidRange (JNum 10) (JNum 9)" and post = "[(''offset'', JNum 1)]"] h3 h4
    by blast
  show ?thesis
    using h3 h4 r1 r2 r3 r4 r5 r6 r7 r8 sp na by (simp add: elemAt_def)
qed

subsection \<open>Default eager expression and default order\<close>

lemma issue_fields:
  "calls (issue c b) = calls b @ [c]" "eagerExpression (issue c b) = eagerExpression b"
  "scopes (issue c b) = scopes b" "applyDefaultEager (issue c b) = applyDefaultEager b"
  "applyDefaultOrder (issue c b) = applyDefaultOrder b"
  by (simp_all add: issue_def)

lemma orderBy_fields:
  "calls (orderBy b as) = calls b @ [Call ''orderBy'' as]"
  "eagerExpression (orderBy b as) = eagerExpression b" "scopes (orderBy b as) = scopes b"
  by (simp_all add: orderBy_def issue_def)

lemma calls_applyFilters:
  "calls (foldl (\<lambda>b sc. issue (Call ''applyFilter'' [sc]) b) b ss) =
     calls b @ map (\<lambda>sc. Call ''applyFilter'' [sc]) ss"
  by (induction ss arbitrary: b) (simp_all add: issue_def)

lemma eagerExpression_applyFilters:
  "eagerExpression (foldl (\<lambda>b sc. issue (Call ''applyFilter'' [sc]) b) b ss) = eagerExpression b"
  by (induction ss arbitrary: b) (simp_all add: issue_def)

lemma mergeEager_fields:
  "calls (mergeEager E b v) = calls b" "scopes (mergeEager E b v) = scopes b"
  "applyDefaultOrder (mergeEager E b v) = applyDefaultOrder b"
  by (simp_all add: mergeEager_def eager_def objection_eager_def split: option.splits)

text \<open>
  C2, as stated, fails: a query with the key \<^verbatim>\<open>eager\<close> and an empty value leaves the plan
  untouched: it is not marked as explicitly eager, and \<^verbatim>\<open>execute\<close> applies the default
  eager expression.
\<close>

theorem eager_handler_defaults_counterexample:
  "find exampleEnv [(''eager'', JStr '''')] None newQueryBuilder = Inr newQueryBuilder \<and>
   applyDefaultEager newQueryBuilder \<and>
   eagerExpression (execute exampleEnv newQueryBuilder) = Some [JStr ''author'']"
  by (simp add: find_def findEntry_def lookupHandler_def ownKey_def objectPrototypeKeys_def
      queryHandlers_def joinKeys_def handler_eager_def execute_def mergeEager_def eager_def
      objection_eager_def orderBy_def issue_def exampleEnv_def newQueryBuilder_def)

text \<open>
  A plan that has an eager expression is marked as explicitly eager: the new builder has
  none, and the setters of the class keep it so where \<^verbatim>\<open>mergeEager\<close> delegates.
\<close>

lemma eager_marked:
  "eagerExpression newQueryBuilder = None"
  "\<not> applyDefaultEager (eager b v)" "\<not> applyDefaultEager (clearEager b)"
  "mergeEagerDelegates E \<Longrightarrow> eagerExpression b = None \<or> \<not> applyDefaultEager b \<Longrightarrow>
     \<not> applyDefaultEager (mergeEager E b v)"
  by (auto simp: newQueryBuilder_def eager_def clearEager_def mergeEager_def objection_eager_def
      split: option.splits)

text \<open>
  C2, amended. For a truthy value the \<^verbatim>\<open>eager\<close> handler, and \<^verbatim>\<open>find\<close> on a query with
  this key, calls \<^verbatim>\<open>mergeEager\<close>: the expression is added to the eager expression of the
  plan, and the plan is marked as explicitly eager (\<^verbatim>\<open>mergeEager\<close> of objection calls
  \<^verbatim>\<open>eager\<close> on a plan without eager expression, and a plan that has one is marked), so
  \<^verbatim>\<open>execute\<close> does not apply the default eager expression. A falsy value is ignored.
  \<^verbatim>\<open>eager\<close> and \<^verbatim>\<open>clearEager\<close> mark the plan as explicitly eager, \<^verbatim>\<open>orderBy\<close> and
  \<^verbatim>\<open>clearOrder\<close> as explicitly ordered; \<^verbatim>\<open>execute\<close> merges the default eager expression,
  and orders by the default order, exactly for a find query without selects that is not
  marked and whose model class defines the default.
\<close>

theorem eager_handler_defaults:
  assumes "mergeEagerDelegates E" and "eagerExpression b = None \<or> \<not> applyDefaultEager b"
  shows
  "(truthy v \<longrightarrow>
      handler_eager E b key v = Inr (mergeEager E b v) \<and>
      find E [(''eager'', v)] None b = Inr (mergeEager E (b\<lparr>relationsToJoin := []\<rparr>) v) \<and>
      eagerExpression (mergeEager E b v) =
        Some ((case eagerExpression b of None \<Rightarrow> [] | Some es \<Rightarrow> es) @ [v]) \<and>
      \<not> applyDefaultEager (mergeEager E b v) \<and>
      eagerExpression (execute E (mergeEager E b v)) = eagerExpression (mergeEager E b v)) \<and>
   (\<not> truthy v \<longrightarrow>
      handler_eager E b key v = Inr b \<and>
      find E [(''eager'', v)] None b = Inr (b\<lparr>relationsToJoin := []\<rparr>)) \<and>
   applyDefaultEager (eager b v) = False \<and>
   applyDefaultEager (clearEager b) = False \<and>
   applyDefaultOrder (orderBy b as) = False \<and>
   applyDefaultOrder (clearOrder b) = False \<and>
   eagerExpression (execute E b) =
     (if isFindQuery b \<and> \<not> hasSelects b \<and> truthy (defaultEager E) \<and> applyDefaultEager b
      then eagerExpression (mergeEager E b (defaultEager E))
      else eagerExpression b) \<and>
   calls (execute E b) =
     calls b @
     (if isFindQuery b \<and> \<not> hasSelects b \<and> truthy (defaultOrder E) \<and> applyDefaultOrder b
      then [Call ''orderBy'' (asArray (defaultOrder E))] else []) @
     map (\<lambda>sc. Call ''applyFilter'' [sc]) (scopes b) @ [Call ''execute'' []]"
proof -
  have own: "ownKey ''eager''" by (simp add: ownKey_def objectPrototypeKeys_def)
  have qh: "queryHandlers E ''eager'' = Some (handler_eager E)"
    by (simp add: queryHandlers_def joinKeys_def)
  have fe: "find E [(''eager'', v)] None b =
      (case handler_eager E (b\<lparr>relationsToJoin := []\<rparr>) ''eager'' v of
         Inl e \<Rightarrow> Inl e
       | Inr b1 \<Rightarrow>
           Inr (foldl (\<lambda>b rel. issue (Call ''relation.join'' [JStr (fst rel), JStr ''leftJoin'']) b)
                  b1 (relationsToJoin b1)))"
    using findEntry_own_open [OF own, of E v "b\<lparr>relationsToJoin := []\<rparr>"] qh
    by (simp add: find_def split: sum.splits)
  have rj: "relationsToJoin (mergeEager E c v) = relationsToJoin c" for c
    by (simp add: mergeEager_def eager_def objection_eager_def split: option.splits)
  have f1: "truthy v \<Longrightarrow> find E [(''eager'', v)] None b = Inr (mergeEager E (b\<lparr>relationsToJoin := []\<rparr>) v)"
    using fe rj [of "b\<lparr>relationsToJoin := []\<rparr>"] by (simp add: handler_eager_def)
  have f2: "\<not> truthy v \<Longrightarrow> find E [(''eager'', v)] None b = Inr (b\<lparr>relationsToJoin := []\<rparr>)"
    using fe by (simp add: handler_eager_def)
  have a: "handler_eager E b key v = Inr (if truthy v then mergeEager E b v else b)"
    by (simp add: handler_eager_def)
  have m: "eagerExpression (mergeEager E b v) =
     Some ((case eagerExpression b of None \<Rightarrow> [] | Some es \<Rightarrow> es) @ [v])"
    by (simp add: mergeEager_def eager_def objection_eager_def split: option.splits)
  have f: "\<not> applyDefaultEager (mergeEager E b v)"
    using assms by (rule eager_marked(4))
  have s: "applyDefaultEager (eager b v) = False" "applyDefaultEager (clearEager b) = False"
    "applyDefaultOrder (orderBy b as) = False" "applyDefaultOrder (clearOrder b) = False"
    by (simp_all add: eager_def objection_eager_def clearEager_def orderBy_def issue_def clearOrder_def)
  have e: "eagerExpression (execute E c) =
     (if isFindQuery c \<and> \<not> hasSelects c \<and> truthy (defaultEager E) \<and> applyDefaultEager c
      then eagerExpression (mergeEager E c (defaultEager E))
      else eagerExpression c)" for c
    by (simp add: execute_def Let_def eagerExpression_applyFilters issue_fields orderBy_fields)
  have x: "eagerExpression (execute E (mergeEager E b v)) = eagerExpression (mergeEager E b v)"
    using e [of "mergeEager E b v"] f by simp
  have c: "calls (execute E b) =
     calls b @
     (if isFindQuery b \<and> \<not> hasSelects b \<and> truthy (defaultOrder E) \<and> applyDefaultOrder b
      then [Call ''orderBy'' (asArray (defaultOrder E))] else []) @
     map (\<lambda>sc. Call ''applyFilter'' [sc]) (scopes b) @ [Call ''execute'' []]"
    by (simp add: execute_def Let_def calls_applyFilters issue_fields orderBy_fields mergeEager_fields)
  show ?thesis
    using a m f s e [of b] c x f1 f2 by simp
qed

theorem eager_handler_defaults_witness:
  "mergeEagerDelegates exampleEnv \<and> eagerExpression newQueryBuilder = None \<and>
   truthy (JStr ''books'') \<and>
   find exampleEnv [(''eager'', JStr ''books'')] None newQueryBuilder =
     Inr (newQueryBuilder\<lparr>applyDefaultEager := False, eagerExpression := Some [JStr ''books'']\<rparr>) \<and>
   eagerExpression
     (execute exampleEnv
        (newQueryBuilder\<lparr>applyDefaultEager := False, eagerExpression := Some [JStr ''books'']\<rparr>)) =
     Some [JStr ''books''] \<and>
   \<not> truthy (JStr '''') \<and>
   handler_eager exampleEnv newQueryBuilder ''eager'' (JStr '''') = Inr newQueryBuilder \<and>
   eagerExpression (execute exampleEnv newQueryBuilder) = Some [JStr ''author''] \<and>
   calls (execute exampleEnv newQueryBuilder) = [Call ''orderBy'' [JStr ''name''], Call ''execute'' []]"
proof -
  have h1: "mergeEagerDelegates exampleEnv" by (simp add: exampleEnv_def)
  have h2: "eagerExpression newQueryBuilder = None" by (simp add: newQueryBuilder_def)
  have m: "mergeEager exampleEnv newQueryBuilder v =
      newQueryBuilder\<lparr>applyDefaultEager := False, eagerExpression := Some [v]\<rparr>" for v
    by (simp add: mergeEager_def eager_def objection_eager_def exampleEnv_def newQueryBuilder_def)
  have r: "newQueryBuilder\<lparr>relationsToJoin := []\<rparr> = newQueryBuilder"
    by (simp add: newQueryBuilder_def)
  have fl: "isFindQuery newQueryBuilder" "\<not> hasSelects newQueryBuilder"
    "applyDefaultEager newQueryBuilder" "applyDefaultOrder newQueryBuilder"
    "scopes newQueryBuilder = []" "calls newQueryBuilder = []"
    by (simp_all add: newQueryBuilder_def)
  have en: "defaultEager exampleEnv = JStr ''author''" "defaultOrder exampleEnv = JStr ''name''"
    by (simp_all add: exampleEnv_def)
  note t = eager_handler_defaults [OF h1, where b = newQueryBuilder and key = "''eager''"]
  have t1: "find exampleEnv [(''eager'', JStr ''books'')] None newQueryBuilder =
     Inr (newQueryBuilder\<lparr>applyDefaultEager := False, eagerExpression := Some [JStr ''books'']\<rparr>)"
    using t [where v = "JStr ''books''"] h2 by (simp add: r m)
  have t2: "eagerExpression
     (execute exampleEnv
        (newQueryBuilder\<lparr>applyDefaultEager := False, eagerExpression := Some [JStr ''books'']\<rparr>)) =
     Some [JStr ''books'']"
    using t [where v = "JStr ''books''"] h2 by (simp add: m)
  have t3: "handler_eager exampleEnv newQueryBuilder ''eager'' (JStr '''') = Inr newQueryBuilder"
    using t [where v = "JStr ''''"] h2 by simp
  have t4: "eagerExpression (execute exampleEnv newQueryBuilder) = Some [JStr ''author'']"
    using t [where v = "JStr ''''"] h2 by (simp add: fl en m)
  have t5: "calls (execute exampleEnv newQueryBuilder) = [Call ''orderBy'' [JStr ''name''], Call ''execute'' []]"
    using t [where v = "JStr ''''"] h2 by (simp add: fl en)
  from h1 h2 t1 t2 t3 t4 t5 show ?thesis by simp
qed

section \<open>Properties of the graph processor\<close>

lemma mapS_map:
  "(\<And>x s y s'. x \<in> set xs \<Longrightarrow> f x s = (y, s') \<Longrightarrow> g y = h x) \<Longrightarrow>
   mapS f xs s = (ys, s') \<Longrightarrow> map g ys = map h xs"
proof (induction xs arbitrary: s ys s')
  case Nil
  then show ?case by simp
next
  case (Cons x xs)
  from Cons.prems(2) obtain y s1 ys' where
    a: "f x s = (y, s1)" and b: "mapS f xs s1 = (ys', s')" and c: "ys = y # ys'"
    by (auto split: prod.splits)
  have "g y = h x" using Cons.prems(1) [OF _ a] by simp
  moreover have "map g ys' = map h xs"
    using Cons.IH [OF _ b] Cons.prems(1) by auto
  ultimately show ?case using c by simp
qed

lemma cloneValue_erase: "cloneValue v n = (v', n') \<Longrightarrow> erase v' = erase v"
proof (induction v n arbitrary: v' n' rule: cloneValue.induct)
  case (1 i cls fs n)
  from 1(2) obtain fs' where
    m: "mapS (\<lambda>kv m. case cloneValue (snd kv) m of (v, m') \<Rightarrow> ((fst kv, v), m')) fs (Suc n) = (fs', n')"
    and v': "v' = GModel n cls fs'"
    by (auto split: prod.splits)
  have "map (\<lambda>kv. (fst kv, erase (snd kv))) fs' = map (\<lambda>kv. (fst kv, erase (snd kv))) fs"
  proof (rule mapS_map [OF _ m])
    fix x s y s'
    assume x: "x \<in> set fs"
      and e: "(case cloneValue (snd x) s of (v, m') \<Rightarrow> ((fst x, v), m')) = (y, s')"
    obtain w m' where c: "cloneValue (snd x) s = (w, m')" by (cases "cloneValue (snd x) s")
    from 1(1) [OF x c] e c show "(fst y, erase (snd y)) = (fst x, erase (snd x))"
      by auto
  qed
  then show ?case by (simp add: v')
next
  case (2 i xs n)
  from 2(2) obtain xs' where
    m: "mapS (\<lambda>x m. cloneValue x m) xs (Suc n) = (xs', n')" and v': "v' = GArray n xs'"
    by (auto split: prod.splits)
  have "map erase xs' = map erase xs"
    by (rule mapS_map [OF _ m]) (use 2(1) in auto)
  then show ?case by (simp add: v')
qed simp_all

lemma cloneValue_model:
  "\<exists>cfs n'. cloneValue (GModel i cls fs) n = (GModel n cls cfs, n') \<and> eraseFields cfs = eraseFields fs"
proof -
  obtain v' n' where c: "cloneValue (GModel i cls fs) n = (v', n')"
    by (cases "cloneValue (GModel i cls fs) n")
  then obtain cfs where v': "v' = GModel n cls cfs"
    by (auto split: prod.splits)
  from cloneValue_erase [OF c] v' have "eraseFields cfs = eraseFields fs"
    by (simp add: eraseFields_def)
  with c v' show ?thesis by blast
qed

lemma erase_undefined [simp]: "(erase v = GUndefined) = (v = GUndefined)"
  by (cases v) simp_all

lemma erase_idem [simp]: "erase (erase v) = erase v"
  by (induction v rule: erase.induct) simp_all

lemma map_of_eraseFields: "map_of (eraseFields fs) k = map_option erase (map_of fs k)"
  by (induction fs) (auto simp: eraseFields_def)

lemma getField_eraseFields: "getField (eraseFields fs) name = erase (getField fs name)"
  by (simp add: getField_def map_of_eraseFields split: option.splits)

lemma eraseFields_update:
  "eraseFields (AList.update k v fs) = AList.update k (erase v) (eraseFields fs)"
  by (induction fs) (auto simp: eraseFields_def)

lemma eraseFields_filter:
  "eraseFields (filter (\<lambda>kv. P (fst kv)) fs) = filter (\<lambda>kv. P (fst kv)) (eraseFields fs)"
  by (induction fs) (auto simp: eraseFields_def)

lemma relationValues_erase_aux:
  "eraseFields (fold (\<lambda>name values.
             if getField fs name \<noteq> GUndefined then AList.update name (getField fs name) values
             else values) names acc)
   = fold (\<lambda>name values.
             if getField (eraseFields fs) name \<noteq> GUndefined
             then AList.update name (getField (eraseFields fs) name) values
             else values) names (eraseFields acc)"
  by (induction names arbitrary: acc) (simp_all add: getField_eraseFields eraseFields_update)

lemma relationValues_erase:
  "eraseFields (relationValues names fs) = relationValues names (eraseFields fs)"
proof -
  have "eraseFields [] = ([] :: (string \<times> gval) list)" by (simp add: eraseFields_def)
  with relationValues_erase_aux [of fs names "[]"] show ?thesis
    by (simp only: relationValues_def)
qed

lemma eraseFields_Nil [simp]: "(eraseFields fs = []) = (fs = [])"
  by (simp add: eraseFields_def)

lemma erase_model: "erase (GModel i cls fs) = GModel 0 cls (eraseFields fs)"
  by (simp add: eraseFields_def)

lemma fold_putEntry_append: "fold putEntry (W1 @ W2) rm = fold putEntry W2 (fold putEntry W1 rm)"
  by simp

lemma indexed_map: "indexed (map f xs) = map (\<lambda>e. (f (fst e), snd e)) (indexed xs)"
  unfolding indexed_def by (induction xs rule: rev_induct) (simp_all add: zip_append1 split_def)

lemma map_fst_indexed: "map (\<lambda>e. g (fst e)) (indexed xs) = map g xs"
proof -
  have "map fst (indexed xs) = xs" by (simp add: indexed_def)
  then have "map g (map fst (indexed xs)) = map g xs" by simp
  then show ?thesis by (simp add: comp_def)
qed

lemma flatMap_map: "flatMap f (map g xs) = flatMap (\<lambda>x. f (g x)) xs"
  by (induction xs) simp_all

lemma processRelates_sim:
  "processRelates M gp d rp dp st = (r, st') \<Longrightarrow>
   erase r = stubOf M gp (erase d) rp \<and>
   (\<exists>W. snd st' = map_option (fold putEntry W) (snd st) \<and>
        map eraseEntry W = removalsOf M gp (erase d) rp dp)"
proof (induction M gp d rp dp st arbitrary: r st' rule: processRelates.induct)
  case (1 M gp i cls fs rp dp st)
  let ?n = "nextId (fst st)"
  let ?names = "relationNames M cls"
  show ?case
  proof (cases "truthy (shouldRelate gp rp)")
    case True
    obtain cfs n' where
      c: "cloneValue (GModel i cls (filter (\<lambda>kv. fst kv \<notin> set ?names) fs)) ?n = (GModel ?n cls cfs, n')"
      and ef: "eraseFields cfs = eraseFields (filter (\<lambda>kv. fst kv \<notin> set ?names) fs)"
      using cloneValue_model by blast
    let ?vals = "relationValues ?names fs"
    let ?W = "if ?vals \<noteq> [] then [(dp, ?vals)] else []"
    from "1.prems" True c have r: "r = GModel ?n cls cfs"
      and s: "snd st' = map_option (fold putEntry ?W) (snd st)"
      by (auto simp: Let_def clone_def cloneShallow_def putEntry_def simp del: cloneValue.simps split: option.splits)
    have e1: "erase r = stubOf M gp (erase (GModel i cls fs)) rp"
      using True eraseFields_filter [of "\<lambda>k. k \<notin> set ?names" fs]
        by (simp add: r erase_model ef del: erase.simps)
    have e2: "map eraseEntry ?W = removalsOf M gp (erase (GModel i cls fs)) rp dp"
      using True by (simp add: erase_model eraseEntry_def relationValues_erase [symmetric] Let_def del: erase.simps)
    from e1 e2 s show ?thesis by blast
  next
    case False
    obtain cfs n' where
      c: "cloneValue (GModel i cls fs) ?n = (GModel ?n cls cfs, n')"
      and ef: "eraseFields cfs = eraseFields fs"
      using cloneValue_model by blast
    define step where "step = (\<lambda>name acc.
        (case processRelates M gp (getField cfs name) (appendPath rp ''.'' name)
                (appendPath dp ''/'' name) (snd acc) of
           (val, st2) \<Rightarrow>
             if val \<noteq> GUndefined
             then (setField (fst acc) name val,
                   ((fst st2)\<lparr>written := written (fst st2) @ [?n]\<rparr>, snd st2))
             else (fst acc, st2)))"
    define stepE where "stepE = (\<lambda>name flds.
        (let val = stubOf M gp (getField (eraseFields fs) name) (appendPath rp ''.'' name)
         in if val \<noteq> GUndefined then AList.update name val flds else flds))"
    have pr: "processRelates M gp (GModel i cls fs) rp dp st =
        fold step ?names (GModel ?n cls cfs, ((fst st)\<lparr>nextId := n'\<rparr>, snd st))"
      using False c by (simp add: Let_def clone_def step_def del: cloneValue.simps cong: if_cong)
    have IH: "erase val = stubOf M gp (getField (eraseFields fs) name) (appendPath rp ''.'' name) \<and>
        (\<exists>W. snd u' = map_option (fold putEntry W) (snd u) \<and>
             map eraseEntry W = removalsOf M gp (getField (eraseFields fs) name)
                (appendPath rp ''.'' name) (appendPath dp ''/'' name))"
      if "name \<in> set ?names"
        and "processRelates M gp (getField cfs name) (appendPath rp ''.'' name)
                (appendPath dp ''/'' name) u = (val, u')"
      for name u val u'
    proof -
      have "getField (modelFields (fst (clone M (GModel i cls fs) (truthy (shouldRelate gp rp)) ?n))) name
            = getField cfs name"
        using False c by (simp add: clone_def del: cloneValue.simps)
      with "1.IH" [OF refl refl refl refl False that(1), of "(undefined, u)" val u'] that(2)
      show ?thesis
        by (simp add: getField_eraseFields [symmetric] ef)
    qed
    have inner: "\<exists>f1. fst res = GModel ?n cls f1 \<and>
          eraseFields f1 = fold stepE names (eraseFields f0) \<and>
          (\<exists>W. snd (snd res) = map_option (fold putEntry W) (snd (snd acc)) \<and>
               map eraseEntry W =
                 flatMap (\<lambda>name. removalsOf M gp (getField (eraseFields fs) name)
                            (appendPath rp ''.'' name) (appendPath dp ''/'' name)) names)"
      if "set names \<subseteq> set ?names" and "fold step names acc = res" and "fst acc = GModel ?n cls f0"
      for names acc res f0
      using that
    proof (induction names arbitrary: acc res f0)
      case Nil
      have "snd (snd acc) = map_option (fold putEntry []) (snd (snd acc))"
        by (simp add: option.map_id id_def[symmetric])
      with Nil show ?case by auto
    next
      case (Cons name names)
      obtain val st2 where p: "processRelates M gp (getField cfs name) (appendPath rp ''.'' name)
                (appendPath dp ''/'' name) (snd acc) = (val, st2)"
        by (cases "processRelates M gp (getField cfs name) (appendPath rp ''.'' name)
                (appendPath dp ''/'' name) (snd acc)")
      from Cons.prems(1) have mem: "name \<in> set ?names" by simp
      from IH [OF mem p] obtain W1 where
        v: "erase val = stubOf M gp (getField (eraseFields fs) name) (appendPath rp ''.'' name)"
        and w1: "snd st2 = map_option (fold putEntry W1) (snd (snd acc))"
        and w1e: "map eraseEntry W1 = removalsOf M gp (getField (eraseFields fs) name)
                (appendPath rp ''.'' name) (appendPath dp ''/'' name)"
        by blast
      let ?acc1 = "step name acc"
      have a1: "fst ?acc1 = GModel ?n cls (if val \<noteq> GUndefined then AList.update name val f0 else f0)"
        using p Cons.prems(3) by (simp add: step_def)
      have a2: "snd (snd ?acc1) = snd st2"
        using p by (simp add: step_def)
      have "fold step names ?acc1 = res" using Cons.prems(2) by simp
      from Cons.IH [OF _ this a1] Cons.prems(1) obtain f1 W2 where
        f1: "fst res = GModel ?n cls f1"
        and e: "eraseFields f1 = fold stepE names (eraseFields (if val \<noteq> GUndefined then AList.update name val f0 else f0))"
        and w2: "snd (snd res) = map_option (fold putEntry W2) (snd (snd ?acc1))"
        and w2e: "map eraseEntry W2 =
                 flatMap (\<lambda>name. removalsOf M gp (getField (eraseFields fs) name)
                            (appendPath rp ''.'' name) (appendPath dp ''/'' name)) names"
        by auto
      have sE: "stepE name (eraseFields f0) =
          eraseFields (if val \<noteq> GUndefined then AList.update name val f0 else f0)"
        unfolding stepE_def Let_def v [symmetric] by (simp add: eraseFields_update)
      have e': "eraseFields f1 = fold stepE (name # names) (eraseFields f0)"
        using e sE by simp
      have w: "snd (snd res) = map_option (fold putEntry (W1 @ W2)) (snd (snd acc))"
        using w2 a2 w1 by (simp add: option.map_comp comp_def)
      have we: "map eraseEntry (W1 @ W2) =
                 flatMap (\<lambda>name. removalsOf M gp (getField (eraseFields fs) name)
                            (appendPath rp ''.'' name) (appendPath dp ''/'' name)) (name # names)"
        using w1e w2e by simp
      from f1 e' w we show ?case by blast
    qed
    from inner [OF subset_refl, of "(GModel ?n cls cfs, ((fst st)\<lparr>nextId := n'\<rparr>, snd st))" "(r, st')" cfs]
      pr "1.prems"
    obtain f1 W where f1: "r = GModel ?n cls f1"
      and e: "eraseFields f1 = fold stepE ?names (eraseFields cfs)"
      and w: "snd st' = map_option (fold putEntry W) (snd st)"
      and we: "map eraseEntry W =
                 flatMap (\<lambda>name. removalsOf M gp (getField (eraseFields fs) name)
                            (appendPath rp ''.'' name) (appendPath dp ''/'' name)) ?names"
      by auto
    have e1: "erase r = stubOf M gp (erase (GModel i cls fs)) rp"
      using False e by (simp add: f1 erase_model ef stepE_def del: erase.simps)
    have e2: "map eraseEntry W = removalsOf M gp (erase (GModel i cls fs)) rp dp"
      using False we by (simp add: erase_model del: erase.simps)
    from e1 e2 w show ?thesis by blast
  qed
next
  case (2 M gp i xs rp dp st)
  let ?n = "nextId (fst st)"
  define f where "f = (\<lambda>entry st1. processRelates M gp (fst entry) rp
                  (appendPath dp ''/'' (showNat (snd entry))) st1)"
  from "2.prems" obtain ys where
    m: "mapS f (indexed xs) ((fst st)\<lparr>nextId := Suc ?n\<rparr>, snd st) = (ys, st')"
    and r: "r = GArray ?n ys"
    by (auto simp: f_def split: prod.splits)
  have IH: "erase y = stubOf M gp (erase (fst entry)) rp \<and>
        (\<exists>W. snd u' = map_option (fold putEntry W) (snd u) \<and>
             map eraseEntry W = removalsOf M gp (erase (fst entry)) rp
                (appendPath dp ''/'' (showNat (snd entry))))"
    if "entry \<in> set (indexed xs)" and "f entry u = (y, u')" for entry u y u'
    using "2.IH" [OF that(1), of u y u'] that(2) by (simp add: f_def)
  have inner: "map erase ys = map (\<lambda>e. stubOf M gp (erase (fst e)) rp) es \<and>
          (\<exists>W. snd res = map_option (fold putEntry W) (snd acc) \<and>
               map eraseEntry W =
                 flatMap (\<lambda>e. removalsOf M gp (erase (fst e)) rp
                            (appendPath dp ''/'' (showNat (snd e)))) es)"
    if "set es \<subseteq> set (indexed xs)" and "mapS f es acc = (ys, res)" for es acc ys res
    using that
  proof (induction es arbitrary: acc ys res)
    case Nil
    have "snd acc = map_option (fold putEntry []) (snd acc)"
      by (simp add: option.map_id id_def[symmetric])
    with Nil show ?case by auto
  next
    case (Cons e es)
    from Cons.prems(2) obtain y s1 ys' where
      a: "f e acc = (y, s1)" and b: "mapS f es s1 = (ys', res)" and c: "ys = y # ys'"
      by (auto split: prod.splits)
    from Cons.prems(1) have mem: "e \<in> set (indexed xs)" by simp
    from IH [OF mem a] obtain W1 where
      v: "erase y = stubOf M gp (erase (fst e)) rp"
      and w1: "snd s1 = map_option (fold putEntry W1) (snd acc)"
      and w1e: "map eraseEntry W1 = removalsOf M gp (erase (fst e)) rp
                (appendPath dp ''/'' (showNat (snd e)))"
      by blast
    from Cons.IH [OF _ b] Cons.prems(1) obtain W2 where
      e: "map erase ys' = map (\<lambda>e. stubOf M gp (erase (fst e)) rp) es"
      and w2: "snd res = map_option (fold putEntry W2) (snd s1)"
      and w2e: "map eraseEntry W2 =
                 flatMap (\<lambda>e. removalsOf M gp (erase (fst e)) rp
                            (appendPath dp ''/'' (showNat (snd e)))) es"
      by auto
    have w: "snd res = map_option (fold putEntry (W1 @ W2)) (snd acc)"
      using w2 w1 by (simp add: option.map_comp comp_def)
    have we: "map eraseEntry (W1 @ W2) =
                 flatMap (\<lambda>e. removalsOf M gp (erase (fst e)) rp
                            (appendPath dp ''/'' (showNat (snd e)))) (e # es)"
      using w1e w2e by simp
    have em: "map erase ys = map (\<lambda>e. stubOf M gp (erase (fst e)) rp) (e # es)"
      unfolding c using v e by (simp del: erase.simps)
    from em w we show ?case by blast
  qed
  from inner [OF subset_refl m] obtain W where
    e: "map erase ys = map (\<lambda>e. stubOf M gp (erase (fst e)) rp) (indexed xs)"
    and w: "snd st' = map_option (fold putEntry W) (snd st)"
    and we: "map eraseEntry W =
                 flatMap (\<lambda>e. removalsOf M gp (erase (fst e)) rp
                            (appendPath dp ''/'' (showNat (snd e)))) (indexed xs)"
    by auto
  have ix: "map (\<lambda>e. stubOf M gp (erase (fst e)) rp) (indexed xs) = map (\<lambda>x. stubOf M gp (erase x) rp) xs"
    by (rule map_fst_indexed)
  have e1: "erase r = stubOf M gp (erase (GArray i xs)) rp"
    using e ix by (simp add: r comp_def)
  have e2: "map eraseEntry W = removalsOf M gp (erase (GArray i xs)) rp dp"
    using we by (simp add: indexed_map flatMap_map)
  from e1 e2 w show ?case by blast
next
  case (3 M gp rp dp st)
  have "snd st = map_option (fold putEntry []) (snd st)" by (simp add: option.map_id id_def[symmetric])
  with 3 show ?case by auto
next
  case (4 M gp rp dp st)
  have "snd st = map_option (fold putEntry []) (snd st)" by (simp add: option.map_id id_def[symmetric])
  with 4 show ?case by auto
next
  case (5 M gp b rp dp st)
  have "snd st = map_option (fold putEntry []) (snd st)" by (simp add: option.map_id id_def[symmetric])
  with 5 show ?case by auto
next
  case (6 M gp n rp dp st)
  have "snd st = map_option (fold putEntry []) (snd st)" by (simp add: option.map_id id_def[symmetric])
  with 6 show ?case by auto
next
  case (7 M gp s rp dp st)
  have "snd st = map_option (fold putEntry []) (snd st)" by (simp add: option.map_id id_def[symmetric])
  with 7 show ?case by auto
qed

lemma set_flatMap: "set (flatMap f xs) = (\<Union>x\<in>set xs. set (f x))"
  by (induction xs) auto

lemma showNat_nonempty: "showNat n \<noteq> []"
  by (subst showNat.simps) simp

lemma digitChar_digit: "d < 10 \<Longrightarrow> digitChar d \<in> set ''0123456789''"
  unfolding digitChar_def by (rule nth_mem) simp

lemma showNat_digits: "set (showNat n) \<subseteq> set ''0123456789''"
proof (induction n rule: showNat.induct)
  case (1 n)
  show ?case
  proof (cases "n < 10")
    case True
    then show ?thesis using digitChar_digit [of n] by (subst showNat.simps) simp
  next
    case False
    have "n mod 10 < 10" by simp
    then have "digitChar (n mod 10) \<in> set ''0123456789''" by (rule digitChar_digit)
    with 1 [OF False] False show ?thesis by (subst showNat.simps) simp
  qed
qed

lemma showNat_no_slash: "CHR ''/'' \<notin> set (showNat n)"
  using showNat_digits [of n] by auto

lemma removalsOf_keys:
  "e \<in> set (removalsOf M gp v rp dp) \<Longrightarrow> dp \<noteq> [] \<Longrightarrow> \<exists>rest. fst e = dp @ rest"
proof (induction M gp v rp dp arbitrary: e rule: removalsOf.induct)
  case (1 M gp i cls fs rp dp)
  show ?case
  proof (cases "truthy (shouldRelate gp rp)")
    case True
    with 1(2) have "fst e = dp" by (auto simp: Let_def split: if_splits)
    then show ?thesis by simp
  next
    case False
    with 1(2) obtain name where n: "name \<in> set (relationNames M cls)"
      and e: "e \<in> set (removalsOf M gp (getField fs name) (appendPath rp ''.'' name)
                        (appendPath dp ''/'' name))"
      by (auto simp: set_flatMap)
    have ne: "appendPath dp ''/'' name \<noteq> []" using 1(3) by (simp add: appendPath_def)
    from 1(1) [OF False n e ne] obtain rest where "fst e = appendPath dp ''/'' name @ rest" by blast
    then show ?thesis using 1(3) by (simp add: appendPath_def)
  qed
next
  case (2 M gp i xs rp dp)
  from 2(2) obtain entry where n: "entry \<in> set (indexed xs)"
    and e: "e \<in> set (removalsOf M gp (fst entry) rp (appendPath dp ''/'' (showNat (snd entry))))"
    by (auto simp: set_flatMap)
  have ne: "appendPath dp ''/'' (showNat (snd entry)) \<noteq> []" using 2(3) by (simp add: appendPath_def)
  from 2(1) [OF n e ne] obtain rest where "fst e = appendPath dp ''/'' (showNat (snd entry)) @ rest" by blast
  then show ?case using 2(3) by (simp add: appendPath_def)
qed simp_all

lemma shouldRelate_root: "shouldRelate gp [] = JUndefined"
  by (simp add: shouldRelate_def)

lemma removalsOf_root_keys:
  "e \<in> set (removalsOf M gp v rp dp) \<Longrightarrow> rp = [] \<Longrightarrow> dp \<noteq> [] \<Longrightarrow>
   \<exists>rest. fst e = dp @ ''/'' @ rest"
proof (induction M gp v rp dp arbitrary: e rule: removalsOf.induct)
  case (1 M gp i cls fs rp dp)
  from 1(3) have False: "\<not> truthy (shouldRelate gp rp)" by (simp add: shouldRelate_root)
  with 1(2) obtain name where n: "name \<in> set (relationNames M cls)"
    and e: "e \<in> set (removalsOf M gp (getField fs name) (appendPath rp ''.'' name)
                      (appendPath dp ''/'' name))"
    by (auto simp: set_flatMap)
  have ne: "appendPath dp ''/'' name \<noteq> []" using 1(4) by (simp add: appendPath_def)
  from removalsOf_keys [OF e ne] obtain rest where "fst e = appendPath dp ''/'' name @ rest" by blast
  with 1(4) have "fst e = dp @ ''/'' @ (name @ rest)" by (simp add: appendPath_def)
  then show ?case by blast
next
  case (2 M gp i xs rp dp)
  from 2(2) obtain entry where n: "entry \<in> set (indexed xs)"
    and e: "e \<in> set (removalsOf M gp (fst entry) rp (appendPath dp ''/'' (showNat (snd entry))))"
    by (auto simp: set_flatMap)
  have ne: "appendPath dp ''/'' (showNat (snd entry)) \<noteq> []"
    using 2(4) by (simp add: appendPath_def)
  from 2(1) [OF n e 2(3) ne] obtain rest where
    "fst e = appendPath dp ''/'' (showNat (snd entry)) @ ''/'' @ rest" by blast
  with 2(4) have "fst e = dp @ ''/'' @ (showNat (snd entry) @ ''/'' @ rest)"
    by (simp add: appendPath_def)
  then show ?case by blast
qed simp_all

lemma removalsOf_top_keys:
  "e \<in> set (removalsOf M gp (GArray a xs) [] []) \<Longrightarrow> CHR ''/'' \<in> set (fst e)"
proof -
  assume "e \<in> set (removalsOf M gp (GArray a xs) [] [])"
  then obtain entry where
    e: "e \<in> set (removalsOf M gp (fst entry) [] (showNat (snd entry)))"
    by (auto simp: set_flatMap appendPath_def)
  from removalsOf_root_keys [OF e refl showNat_nonempty] show ?thesis by auto
qed

lemma removalsOf_top_not_index:
  "showNat k \<notin> fst ` set (removalsOf M gp (GArray a xs) [] [])"
  using removalsOf_top_keys showNat_no_slash by fastforce

lemma map_of_putEntry: "map_of (putEntry kv m) = (map_of m)(fst kv \<mapsto> snd kv)"
  by (simp add: putEntry_def update_conv')

lemma map_of_fold_putEntry_other:
  "k \<notin> fst ` set W \<Longrightarrow> map_of (fold putEntry W m) k = map_of m k"
  by (induction W arbitrary: m) (auto simp: map_of_putEntry)

lemma keys_eraseEntry: "map fst (map eraseEntry W) = map fst W"
  by (simp add: eraseEntry_def comp_def)

lemma processRelates_removed_other:
  assumes "processRelates M gp d rp dp st = (r, st')"
    and "k \<notin> fst ` set (removalsOf M gp (erase d) rp dp)"
  shows "map_option (\<lambda>rm. map_of rm k) (snd st') = map_option (\<lambda>rm. map_of rm k) (snd st)"
proof -
  from processRelates_sim [OF assms(1)] obtain W where
    w: "snd st' = map_option (fold putEntry W) (snd st)"
    and we: "map eraseEntry W = removalsOf M gp (erase d) rp dp"
    by blast
  have "map fst W = map fst (removalsOf M gp (erase d) rp dp)"
    using keys_eraseEntry [of W] we by simp
  then have "fst ` set W = fst ` set (removalsOf M gp (erase d) rp dp)"
    by (metis set_map)
  with assms(2) have "k \<notin> fst ` set W" by simp
  then show ?thesis
    by (simp add: w option.map_comp comp_def map_of_fold_putEntry_other)
qed

lemma stubOf_undefined: "(stubOf M gp v rp = GUndefined) = (v = GUndefined)"
  by (cases v) simp_all

lemma getField_update_other: "x \<noteq> name \<Longrightarrow> getField (AList.update x v flds) name = getField flds name"
  by (simp add: getField_def update_conv')

lemma getField_defined: "getField fs name \<noteq> GUndefined \<Longrightarrow> name \<in> set (map fst fs)"
  by (auto simp: getField_def split: option.splits dest: map_of_SomeD intro: rev_image_eqI)

lemma stub_fold_keys:
  fixes fs :: "(string \<times> gval) list"
  assumes "\<And>name. g name \<noteq> GUndefined \<Longrightarrow> name \<in> set (map fst fs)"
  shows "map fst (fold (\<lambda>name flds. let val = g name in
                          if val \<noteq> GUndefined then AList.update name val flds else flds)
                    names fs) = map fst fs"
proof (rule fold_invariant [where Q = "\<lambda>x. True"])
  fix x and s :: "(string \<times> gval) list"
  assume "map fst s = map fst fs"
  then show "map fst (let val = g x in if val \<noteq> GUndefined then AList.update x val s else s) = map fst fs"
    using assms [of x] by (simp add: Let_def update_keys)
qed simp_all

lemma stub_fold_other:
  fixes fs :: "(string \<times> gval) list"
  assumes "name \<notin> set names"
  shows "getField (fold (\<lambda>name flds. let val = g name in
                          if val \<noteq> GUndefined then AList.update name val flds else flds)
                    names fs) name = getField fs name"
proof (rule fold_invariant [where Q = "\<lambda>x. x \<noteq> name"])
  fix x assume "x \<in> set names"
  with assms show "x \<noteq> name" by auto
next
  fix x and s :: "(string \<times> gval) list"
  assume "x \<noteq> name" and "getField s name = getField fs name"
  then show "getField (let val = g x in if val \<noteq> GUndefined then AList.update x val s else s) name = getField fs name"
    by (simp add: Let_def getField_update_other)
qed simp

lemma keys_eraseFields: "map fst (eraseFields fs) = map fst fs"
  by (simp add: eraseFields_def comp_def)

lemma processRelates_model_shape:
  "\<exists>flds. fst (processRelates M gp (GModel i cls fs) rp dp st) = GModel (nextId (fst st)) cls flds"
proof (cases "truthy (shouldRelate gp rp)")
  case True
  obtain cfs n' where
    "cloneValue (GModel i cls (filter (\<lambda>kv. fst kv \<notin> set (relationNames M cls)) fs)) (nextId (fst st))
       = (GModel (nextId (fst st)) cls cfs, n')"
    using cloneValue_model by blast
  with True show ?thesis
    by (simp add: Let_def clone_def cloneShallow_def del: cloneValue.simps)
next
  case False
  obtain cfs n' where
    c: "cloneValue (GModel i cls fs) (nextId (fst st)) = (GModel (nextId (fst st)) cls cfs, n')"
    using cloneValue_model by blast
  let ?step = "\<lambda>name acc.
        (case processRelates M gp (getField cfs name) (appendPath rp ''.'' name)
                (appendPath dp ''/'' name) (snd acc) of
           (val, st2) \<Rightarrow>
             if val \<noteq> GUndefined
             then (setField (fst acc) name val,
                   ((fst st2)\<lparr>written := written (fst st2) @ [nextId (fst st)]\<rparr>, snd st2))
             else (fst acc, st2))"
  have pr: "processRelates M gp (GModel i cls fs) rp dp st =
        fold ?step (relationNames M cls) (GModel (nextId (fst st)) cls cfs, ((fst st)\<lparr>nextId := n'\<rparr>, snd st))"
    using False c by (simp add: Let_def clone_def del: cloneValue.simps cong: if_cong)
  have "\<exists>flds. fst (fold ?step (relationNames M cls)
            (GModel (nextId (fst st)) cls cfs, ((fst st)\<lparr>nextId := n'\<rparr>, snd st))) = GModel (nextId (fst st)) cls flds"
  proof (rule fold_invariant [where Q = "\<lambda>x. True"])
    fix x and s :: "gval \<times> prState"
    assume "\<exists>flds. fst s = GModel (nextId (fst st)) cls flds"
    then show "\<exists>flds. fst (?step x s) = GModel (nextId (fst st)) cls flds"
      by (auto split: prod.splits)
  qed simp_all
  with pr show ?thesis by simp
qed

lemma stub_fold_relation:
  fixes fs :: "(string \<times> gval) list"
  assumes "name \<in> set names" and "g name = GUndefined \<Longrightarrow> getField fs name = GUndefined"
  shows "getField (fold (\<lambda>name flds. let val = g name in
                          if val \<noteq> GUndefined then AList.update name val flds else flds)
                    names fs) name = g name"
proof -
  define f :: "string \<Rightarrow> (string \<times> gval) list \<Rightarrow> (string \<times> gval) list"
    where "f = (\<lambda>name flds. let val = g name in
              if val \<noteq> GUndefined then AList.update name val flds else flds)"
  have other: "getField (f x s) name = getField s name" if "x \<noteq> name" for x s
    using that by (simp add: f_def Let_def getField_update_other)
  have same: "getField (f name s) name = (if g name \<noteq> GUndefined then g name else getField s name)"
    for s
    by (simp add: f_def Let_def getField_def update_conv')
  have "getField (fold f ns s) name =
          (if name \<in> set ns \<and> g name \<noteq> GUndefined then g name else getField s name)"
    for ns s
  proof (induction ns arbitrary: s)
    case Nil
    then show ?case by simp
  next
    case (Cons x ns)
    have "getField (fold f (x # ns) s) name = getField (fold f ns (f x s)) name"
      by simp
    also have "\<dots> = (if name \<in> set ns \<and> g name \<noteq> GUndefined then g name
                       else getField (f x s) name)"
      by (rule Cons.IH)
    finally show ?case
      using other [of x s] same [of s] by (cases "x = name") auto
  qed
  from this [of names fs] assms show ?thesis unfolding f_def by auto
qed

lemma processRelates_keep_node:
  assumes "\<not> truthy (shouldRelate gp rp)"
    and "processRelates M gp (GModel i cls fs) rp dp st = (r, st')"
  shows "\<exists>flds. r = GModel (nextId (fst st)) cls flds \<and> map fst flds = map fst fs \<and>
           (\<forall>name. name \<notin> set (relationNames M cls) \<longrightarrow>
                erase (getField flds name) = erase (getField fs name)) \<and>
           (\<forall>name. name \<in> set (relationNames M cls) \<longrightarrow>
                erase (getField flds name) =
                  stubOf M gp (erase (getField fs name)) (appendPath rp ''.'' name))"
proof -
  from processRelates_model_shape [of M gp i cls fs rp dp st] assms(2)
  obtain flds where r: "r = GModel (nextId (fst st)) cls flds" by auto
  let ?g = "\<lambda>name. stubOf M gp (getField (eraseFields fs) name) (appendPath rp ''.'' name)"
  let ?stub = "fold (\<lambda>name flds. let val = ?g name in
                          if val \<noteq> GUndefined then AList.update name val flds else flds)
                 (relationNames M cls) (eraseFields fs)"
  from processRelates_sim [OF assms(2)] have "erase r = stubOf M gp (erase (GModel i cls fs)) rp"
    by blast
  then have e: "eraseFields flds = ?stub"
    using assms(1) by (simp add: r erase_model del: erase.simps)
  have "map fst ?stub = map fst (eraseFields fs)"
    by (rule stub_fold_keys) (use getField_defined in \<open>simp add: stubOf_undefined\<close>)
  with e have k: "map fst flds = map fst fs"
    using keys_eraseFields [of flds] keys_eraseFields [of fs] by simp
  have a: "erase (getField flds name) = erase (getField fs name)"
    if "name \<notin> set (relationNames M cls)" for name
  proof -
    have "getField ?stub name = getField (eraseFields fs) name"
      using that by (rule stub_fold_other)
    then have "getField (eraseFields flds) name = getField (eraseFields fs) name"
      unfolding e .
    then show ?thesis by (simp only: getField_eraseFields)
  qed
  have b: "erase (getField flds name) = stubOf M gp (erase (getField fs name)) (appendPath rp ''.'' name)"
    if "name \<in> set (relationNames M cls)" for name
  proof -
    have "getField ?stub name = ?g name"
      using that by (rule stub_fold_relation) (simp add: stubOf_undefined)
    then have "getField (eraseFields flds) name = ?g name"
      unfolding e .
    then show ?thesis by (simp only: getField_eraseFields)
  qed
  from r k a b show ?thesis by blast
qed


lemma mapS_state_invariant:
  "(\<And>x s y s'. x \<in> set xs \<Longrightarrow> f x s = (y, s') \<Longrightarrow> P s \<Longrightarrow> P s') \<Longrightarrow>
   mapS f xs s = (ys, s') \<Longrightarrow> P s \<Longrightarrow> P s'"
proof (induction xs arbitrary: s ys)
  case Nil
  then show ?case by simp
next
  case (Cons x xs)
  from Cons.prems(2) obtain y s1 ys' where
    a: "f x s = (y, s1)" and b: "mapS f xs s1 = (ys', s')"
    by (auto split: prod.splits)
  have "P s1" using Cons.prems(1) [OF _ a Cons.prems(3)] by simp
  with Cons.IH [OF _ b] Cons.prems(1) show ?case by auto
qed

lemma cloneValue_mono: "cloneValue v n = (v', n') \<Longrightarrow> n \<le> n'"
proof (induction v n arbitrary: v' n' rule: cloneValue.induct)
  case (1 i cls fs n)
  from 1(2) obtain fs' where
    m: "mapS (\<lambda>kv m. case cloneValue (snd kv) m of (v, m') \<Rightarrow> ((fst kv, v), m')) fs (Suc n) = (fs', n')"
    by (auto split: prod.splits)
  have "Suc n \<le> n'"
  proof (rule mapS_state_invariant [OF _ m, where P = "\<lambda>m. Suc n \<le> m"])
    fix x s y s'
    assume x: "x \<in> set fs"
      and e: "(case cloneValue (snd x) s of (v, m') \<Rightarrow> ((fst x, v), m')) = (y, s')"
      and s: "Suc n \<le> s"
    obtain w m' where c: "cloneValue (snd x) s = (w, m')" by (cases "cloneValue (snd x) s")
    from 1(1) [OF x c] e c s show "Suc n \<le> s'" by auto
  qed simp
  then show ?case by simp
next
  case (2 i xs n)
  from 2(2) obtain xs' where
    m: "mapS (\<lambda>x m. cloneValue x m) xs (Suc n) = (xs', n')"
    by (auto split: prod.splits)
  have "Suc n \<le> n'"
  proof (rule mapS_state_invariant [OF _ m, where P = "\<lambda>m. Suc n \<le> m"])
    fix x s y s'
    assume x: "x \<in> set xs" and c: "cloneValue x s = (y, s')" and s: "Suc n \<le> s"
    from 2(1) [OF x c] s show "Suc n \<le> s'" by simp
  qed simp
  then show ?case by simp
qed simp_all

lemma freshFrom_refl: "freshFrom s s"
  by (simp add: freshFrom_def)

lemma freshFrom_trans: "freshFrom s s1 \<Longrightarrow> freshFrom s1 s2 \<Longrightarrow> freshFrom s s2"
  by (fastforce simp: freshFrom_def)

lemma processRelates_fresh:
  "processRelates M gp d rp dp st = (r, st') \<Longrightarrow> freshFrom (fst st) (fst st')"
proof (induction M gp d rp dp st arbitrary: r st' rule: processRelates.induct)
  case (1 M gp i cls fs rp dp st)
  let ?n = "nextId (fst st)"
  let ?names = "relationNames M cls"
  show ?case
  proof (cases "truthy (shouldRelate gp rp)")
    case True
    obtain cfs n' where
      c: "cloneValue (GModel i cls (filter (\<lambda>kv. fst kv \<notin> set ?names) fs)) ?n = (GModel ?n cls cfs, n')"
      using cloneValue_model by blast
    from "1.prems" True c have "fst st' = (fst st)\<lparr>nextId := n'\<rparr>"
      by (auto simp: Let_def clone_def cloneShallow_def simp del: cloneValue.simps)
    with cloneValue_mono [OF c] show ?thesis by (auto simp: freshFrom_def)
  next
    case False
    obtain cfs n' where
      c: "cloneValue (GModel i cls fs) ?n = (GModel ?n cls cfs, n')"
      using cloneValue_model by blast
    let ?step = "\<lambda>name acc.
        (case processRelates M gp (getField cfs name) (appendPath rp ''.'' name)
                (appendPath dp ''/'' name) (snd acc) of
           (val, st2) \<Rightarrow>
             if val \<noteq> GUndefined
             then (setField (fst acc) name val,
                   ((fst st2)\<lparr>written := written (fst st2) @ [?n]\<rparr>, snd st2))
             else (fst acc, st2))"
    have pr: "processRelates M gp (GModel i cls fs) rp dp st =
        fold ?step ?names (GModel ?n cls cfs, ((fst st)\<lparr>nextId := n'\<rparr>, snd st))"
      using False c by (simp add: Let_def clone_def del: cloneValue.simps cong: if_cong)
    have IH: "freshFrom (fst u) (fst u')"
      if "name \<in> set ?names"
        and "processRelates M gp (getField cfs name) (appendPath rp ''.'' name)
                (appendPath dp ''/'' name) u = (val, u')"
      for name u val u'
    proof -
      have "getField (modelFields (fst (clone M (GModel i cls fs) (truthy (shouldRelate gp rp)) ?n))) name
            = getField cfs name"
        using False c by (simp add: clone_def del: cloneValue.simps)
      with "1.IH" [OF refl refl refl refl False that(1), of "(undefined, u)" val u'] that(2)
      show ?thesis by simp
    qed
    have "freshFrom (fst st) (fst (snd (fold ?step ?names
            (GModel ?n cls cfs, ((fst st)\<lparr>nextId := n'\<rparr>, snd st)))))"
    proof (rule fold_invariant [where Q = "\<lambda>x. x \<in> set ?names"])
      show "freshFrom (fst st) (fst (snd (GModel ?n cls cfs, ((fst st)\<lparr>nextId := n'\<rparr>, snd st))))"
        using cloneValue_mono [OF c] by (auto simp: freshFrom_def)
    next
      fix x and s :: "gval \<times> prState"
      assume x: "x \<in> set ?names" and s: "freshFrom (fst st) (fst (snd s))"
      obtain val st2 where p: "processRelates M gp (getField cfs x) (appendPath rp ''.'' x)
                (appendPath dp ''/'' x) (snd s) = (val, st2)"
        by (cases "processRelates M gp (getField cfs x) (appendPath rp ''.'' x)
                (appendPath dp ''/'' x) (snd s)")
      from IH [OF x p] s have "freshFrom (fst st) (fst st2)" by (rule freshFrom_trans [rotated])
      then have "freshFrom (fst st) ((fst st2)\<lparr>written := written (fst st2) @ [?n]\<rparr>)"
        by (auto simp: freshFrom_def)
      with \<open>freshFrom (fst st) (fst st2)\<close> p show "freshFrom (fst st) (fst (snd (?step x s)))"
        by simp
    qed simp
    with pr "1.prems" show ?thesis by simp
  qed
next
  case (2 M gp i xs rp dp st)
  let ?n = "nextId (fst st)"
  define f where "f = (\<lambda>entry st1. processRelates M gp (fst entry) rp
                  (appendPath dp ''/'' (showNat (snd entry))) st1)"
  from "2.prems" obtain ys where
    m: "mapS f (indexed xs) ((fst st)\<lparr>nextId := Suc ?n\<rparr>, snd st) = (ys, st')"
    by (auto simp: f_def split: prod.splits)
  show ?case
  proof (rule mapS_state_invariant [OF _ m, where P = "\<lambda>u. freshFrom (fst st) (fst u)"])
    fix x s y s'
    assume x: "x \<in> set (indexed xs)" and e: "f x s = (y, s')" and s: "freshFrom (fst st) (fst s)"
    from "2.IH" [OF x, of s y s'] e have "freshFrom (fst s) (fst s')" by (simp add: f_def)
    with s show "freshFrom (fst st) (fst s')" by (rule freshFrom_trans)
  qed (simp add: freshFrom_def)
qed (simp_all add: freshFrom_refl)

lemma example_new:
  "newGraphProcessor exampleModels ''Person'' exampleGraph [(''relate'', JBool True)] bothSettings exampleStore
     = (exampleProcessor, \<lparr>nextId = 7, written = []\<rparr>)"
  by code_simp

lemma example_getData:
  "getData exampleModels exampleProcessor \<lparr>nextId = 7, written = []\<rparr> =
    (GModel 8 ''Person''
   [(''id'', GNum 1),
    (''pets'',
     GArray 14
      [GModel 15 ''Pet''
        [(''id'', GNum 10),
         (''vet'', GModel 17 ''Person'' [(''id'', GNum 3)])]]),
    (''name'', GStr ''Joe''),
    (''employer'',
     GModel 18 ''Company'' [(''id'', GNum 20), (''name'', GStr ''ACME'')])],
     exampleProcessor\<lparr>removedRelations := Some
        [(''0/employer'',
          [(''owner'',
            GModel 13 ''Person''
             [(''id'', GNum 2), (''name'', GStr ''Jane'')])])]\<rparr>,
      \<lparr>nextId = 19, written = [15, 8, 8]\<rparr>)"
  by code_simp

lemma getData_removed_root:
  assumes "gp_data gp = GArray a xs" and "removedRelations gp = Some rm"
    and "getData M gp s = (d, gp', s')"
  shows "\<exists>rm'. removedRelations gp' = Some rm' \<and> map_of rm' (showNat k) = map_of rm (showNat k)"
proof -
  obtain d0 s0 rm0 where
    p: "processRelates M gp (GArray a xs) [] [] (s, Some rm) = (d0, (s0, rm0))"
    by (cases "processRelates M gp (GArray a xs) [] [] (s, Some rm)") auto
  from assms p have gp': "gp' = gp\<lparr>removedRelations := rm0\<rparr>"
    by (simp add: getData_def)
  have "showNat k \<notin> fst ` set (removalsOf M gp (erase (GArray a xs)) [] [])"
    using removalsOf_top_not_index [of k M gp 0 "map erase xs"] by simp
  from processRelates_removed_other [OF p this]
  have "map_option (\<lambda>rm. map_of rm (showNat k)) rm0 = Some (map_of rm (showNat k))" by simp
  then show ?thesis using gp' by auto
qed

text \<open>
  C5: \<^verbatim>\<open>shouldRelate('')\<close> never returns true, whatever the options and the overrides are
  (it returns \<^verbatim>\<open>undefined\<close>). So \<^verbatim>\<open>processRelates\<close> turns an entity node at the root path
  into a new object of the same class that keeps every field of the node, the fields
  that are no relations with their values, and \<^verbatim>\<open>getData()\<close> records nothing in the
  removed-relations map under the data path of a root node, the index \<open>k\<close> in the array
  of the data.
\<close>

theorem root_never_relates:
  "shouldRelate gp [] = JUndefined \<and> \<not> truthy (shouldRelate gp []) \<and>
   (processRelates M gp (GModel i cls fs) [] dp st = (r, st') \<longrightarrow>
      (\<exists>flds. r = GModel (nextId (fst st)) cls flds \<and> map fst flds = map fst fs \<and>
         (\<forall>name. name \<notin> set (relationNames M cls) \<longrightarrow>
              erase (getField flds name) = erase (getField fs name)))) \<and>
   (gp_data gp = GArray a xs \<and> removedRelations gp = Some rm \<and> getData M gp s = (d, gp', s') \<longrightarrow>
      (\<exists>rm'. removedRelations gp' = Some rm' \<and>
         map_of rm' (showNat k) = map_of rm (showNat k)))"
proof -
  have n: "\<not> truthy (shouldRelate gp [])" by (simp add: shouldRelate_root)
  from processRelates_keep_node [OF n, of M i cls fs dp st r st']
    getData_removed_root [of gp a xs rm M s d gp' s' k] n
  show ?thesis by (auto simp: shouldRelate_root)
qed

theorem root_never_relates_witness:
  "shouldRelate exampleProcessor [] = JUndefined \<and>
   processRelates exampleModels exampleProcessor
     (GModel 0 ''Person''
        [(''id'', GNum 1),
         (''pets'', GArray 1 [GModel 2 ''Pet'' [(''id'', GNum 10), (''vet'', GModel 3 ''Person'' [(''id'', GNum 3)])]]),
         (''name'', GStr ''Joe''),
         (''employer'', GModel 4 ''Company''
            [(''id'', GNum 20), (''owner'', GModel 5 ''Person'' [(''id'', GNum 2), (''name'', GStr ''Jane'')]),
             (''name'', GStr ''ACME'')])])
     [] ''0'' (\<lparr>nextId = 8, written = []\<rparr>, Some []) =
     (GModel 8 ''Person''
        [(''id'', GNum 1),
         (''pets'', GArray 14 [GModel 15 ''Pet'' [(''id'', GNum 10), (''vet'', GModel 17 ''Person'' [(''id'', GNum 3)])]]),
         (''name'', GStr ''Joe''),
         (''employer'', GModel 18 ''Company'' [(''id'', GNum 20), (''name'', GStr ''ACME'')])],
      (\<lparr>nextId = 19, written = [15, 8, 8]\<rparr>,
       Some [(''0/employer'', [(''owner'', GModel 13 ''Person'' [(''id'', GNum 2), (''name'', GStr ''Jane'')])])])) \<and>
   ''name'' \<notin> set (relationNames exampleModels ''Person'') \<and>
   gp_data exampleProcessor = GArray 6 [exampleGraph] \<and>
   removedRelations exampleProcessor = Some [] \<and>
   getData exampleModels exampleProcessor \<lparr>nextId = 7, written = []\<rparr> =
     (GModel 8 ''Person''
        [(''id'', GNum 1),
         (''pets'', GArray 14 [GModel 15 ''Pet'' [(''id'', GNum 10), (''vet'', GModel 17 ''Person'' [(''id'', GNum 3)])]]),
         (''name'', GStr ''Joe''),
         (''employer'', GModel 18 ''Company'' [(''id'', GNum 20), (''name'', GStr ''ACME'')])],
      exampleProcessor\<lparr>removedRelations :=
         Some [(''0/employer'', [(''owner'', GModel 13 ''Person'' [(''id'', GNum 2), (''name'', GStr ''Jane'')])])]\<rparr>,
      \<lparr>nextId = 19, written = [15, 8, 8]\<rparr>) \<and>
   map_of [(''0/employer'', [(''owner'', GModel 13 ''Person'' [(''id'', GNum 2), (''name'', GStr ''Jane'')])])]
     (showNat 0) = None"
proof -
  let ?fs = "[(''id'', GNum 1),
         (''pets'', GArray 1 [GModel 2 ''Pet'' [(''id'', GNum 10), (''vet'', GModel 3 ''Person'' [(''id'', GNum 3)])]]),
         (''name'', GStr ''Joe''),
         (''employer'', GModel 4 ''Company''
            [(''id'', GNum 20), (''owner'', GModel 5 ''Person'' [(''id'', GNum 2), (''name'', GStr ''Jane'')]),
             (''name'', GStr ''ACME'')])]"
  let ?r = "GModel 8 ''Person''
        [(''id'', GNum 1),
         (''pets'', GArray 14 [GModel 15 ''Pet'' [(''id'', GNum 10), (''vet'', GModel 17 ''Person'' [(''id'', GNum 3)])]]),
         (''name'', GStr ''Joe''),
         (''employer'', GModel 18 ''Company'' [(''id'', GNum 20), (''name'', GStr ''ACME'')])]"
  let ?rm = "Some [(''0/employer'', [(''owner'', GModel 13 ''Person'' [(''id'', GNum 2), (''name'', GStr ''Jane'')])])]"
  let ?s = "\<lparr>nextId = 19, written = [15, 8, 8]\<rparr>"
  have h1: "processRelates exampleModels exampleProcessor (GModel 0 ''Person'' ?fs)
     [] ''0'' (\<lparr>nextId = 8, written = []\<rparr>, Some []) = (?r, (?s, ?rm))"
    by code_simp
  have h2: "''name'' \<notin> set (relationNames exampleModels ''Person'')"
    by (simp add: relationNames_def relationsOf_def exampleModels_def)
  have h3: "gp_data exampleProcessor = GArray 6 [exampleGraph]"
    and h4: "removedRelations exampleProcessor = Some []"
    by (simp_all add: exampleProcessor_def)
  have h5: "getData exampleModels exampleProcessor \<lparr>nextId = 7, written = []\<rparr> =
     (?r, exampleProcessor\<lparr>removedRelations := ?rm\<rparr>, ?s)"
    by code_simp
  have h6: "map_of (the ?rm) (showNat 0) = None"
    by code_simp
  from root_never_relates [of exampleProcessor exampleModels 0 "''Person''" ?fs "''0''"
      "(\<lparr>nextId = 8, written = []\<rparr>, Some [])" ?r "(?s, ?rm)" 6 "[exampleGraph]" "[]"
      "\<lparr>nextId = 7, written = []\<rparr>" ?r "exampleProcessor\<lparr>removedRelations := ?rm\<rparr>" ?s 0]
    h1 h2 h3 h4 h5 h6
  show ?thesis by (simp del: processRelates.simps)
qed

lemma shouldRelate_removed [simp]:
  "shouldRelate (gp\<lparr>removedRelations := x\<rparr>) rp = shouldRelate gp rp"
  by (simp add: shouldRelate_def split: option.splits)

lemma stubOf_removed [simp]:
  "stubOf M (gp\<lparr>removedRelations := x\<rparr>) v rp = stubOf M gp v rp"
proof (induction M gp v rp rule: stubOf.induct)
  case (1 M gp i cls fs relationPath)
  show ?case
  proof (cases "truthy (shouldRelate gp relationPath)")
    case True
    then show ?thesis by simp
  next
    case False
    have "fold (\<lambda>name flds.
                 (let val = stubOf M (gp\<lparr>removedRelations := x\<rparr>) (getField fs name)
                              (appendPath relationPath ''.'' name)
                  in if val \<noteq> GUndefined then AList.update name val flds else flds))
            (relationNames M cls) fs =
          fold (\<lambda>name flds.
                 (let val = stubOf M gp (getField fs name) (appendPath relationPath ''.'' name)
                  in if val \<noteq> GUndefined then AList.update name val flds else flds))
            (relationNames M cls) fs"
      by (rule fold_cong) (simp_all add: 1 [OF False])
    with False show ?thesis by simp
  qed
qed simp_all

lemma erase_firstEntry: "erase (firstEntry v) = firstEntry (erase v)"
  by (induction v rule: firstEntry.induct) simp_all

lemma keys_fold_putEntry_mono:
  "set (map fst m) \<subseteq> set (map fst (fold putEntry W m))"
proof (induction W arbitrary: m)
  case Nil
  then show ?case by simp
next
  case (Cons e W)
  have "set (map fst m) \<subseteq> set (map fst (putEntry e m))"
    by (auto simp: putEntry_def update_keys)
  with Cons [of "putEntry e m"] show ?case by auto
qed

lemma keys_fold_putEntry_new:
  "fst ` set W \<subseteq> set (map fst (fold putEntry W m))"
proof (induction W arbitrary: m)
  case Nil
  then show ?case by simp
next
  case (Cons e W)
  have "fst e \<in> set (map fst (putEntry e m))"
    by (auto simp: putEntry_def update_keys)
  with keys_fold_putEntry_mono [of "putEntry e m" W] Cons [of "putEntry e m"]
  show ?case by auto
qed

lemma keys_fold_putEntry_old:
  "fst ` set W \<subseteq> set (map fst m) \<Longrightarrow> map fst (fold putEntry W m) = map fst m"
proof (induction W arbitrary: m)
  case Nil
  then show ?case by simp
next
  case (Cons e W)
  from Cons.prems have k: "map fst (putEntry e m) = map fst m"
    by (auto simp: putEntry_def update_keys)
  with Cons.prems have "fst ` set W \<subseteq> set (map fst (putEntry e m))" by simp
  from Cons.IH [OF this] k show ?case by simp
qed

lemma map_of_fold_putEntry:
  "map_of (fold putEntry W m) = map_of m ++ map_of (rev W)"
proof (induction W arbitrary: m)
  case Nil
  then show ?case by simp
next
  case (Cons e W)
  have "map_of (putEntry e m) ++ map_of (rev W) = map_of m ++ (map_of (rev W @ [e]))"
    by (rule ext) (auto simp: map_of_putEntry map_add_def split: option.splits)
  with Cons [of "putEntry e m"] show ?case by simp
qed

lemma map_of_eraseEntry:
  "map_of (map eraseEntry m) k = map_option eraseFields (map_of m k)"
  by (induction m) (auto simp: eraseEntry_def)

lemma map_of_rev_eraseEntry:
  "map_of (rev (map eraseEntry W)) k = map_option eraseFields (map_of (rev W) k)"
  using map_of_eraseEntry [of "rev W" k] by (simp add: rev_map)

lemma removed_twice:
  assumes "map eraseEntry W2 = map eraseEntry W1"
  shows "map fst (fold putEntry W2 (fold putEntry W1 m)) = map fst (fold putEntry W1 m)"
    and "map_of (map eraseEntry (fold putEntry W2 (fold putEntry W1 m)))
           = map_of (map eraseEntry (fold putEntry W1 m))"
proof -
  have "map fst (map eraseEntry W2) = map fst (map eraseEntry W1)"
    by (simp only: assms)
  then have "map fst W2 = map fst W1"
    by (simp only: keys_eraseEntry)
  then have "fst ` set W2 = fst ` set W1" by (metis set_map)
  with keys_fold_putEntry_new [of W1 m]
  show "map fst (fold putEntry W2 (fold putEntry W1 m)) = map fst (fold putEntry W1 m)"
    by (intro keys_fold_putEntry_old) simp
  have e: "map_option eraseFields (map_of (rev W2) k) = map_option eraseFields (map_of (rev W1) k)" for k
    using assms map_of_rev_eraseEntry [of W1 k] map_of_rev_eraseEntry [of W2 k] by simp
  show "map_of (map eraseEntry (fold putEntry W2 (fold putEntry W1 m)))
           = map_of (map eraseEntry (fold putEntry W1 m))"
  proof (rule ext)
    fix k
    show "map_of (map eraseEntry (fold putEntry W2 (fold putEntry W1 m))) k
           = map_of (map eraseEntry (fold putEntry W1 m)) k"
      using e [of k]
      by (cases "map_of (rev W2) k"; cases "map_of (rev W1) k")
         (auto simp: map_of_eraseEntry map_of_fold_putEntry map_add_def)
  qed
qed

lemma removalsOf_removed [simp]:
  "removalsOf M (gp\<lparr>removedRelations := x\<rparr>) v rp dp = removalsOf M gp v rp dp"
proof (induction M gp v rp dp rule: removalsOf.induct)
  case (1 M gp i cls fs relationPath dataPath)
  show ?case
  proof (cases "truthy (shouldRelate gp relationPath)")
    case True
    then show ?thesis by simp
  next
    case False
    have "flatMap (\<lambda>name. removalsOf M (gp\<lparr>removedRelations := x\<rparr>) (getField fs name)
                              (appendPath relationPath ''.'' name)
                              (appendPath dataPath ''/'' name))
             (relationNames M cls) =
          flatMap (\<lambda>name. removalsOf M gp (getField fs name)
                              (appendPath relationPath ''.'' name)
                              (appendPath dataPath ''/'' name))
             (relationNames M cls)"
      by (rule flatMap_cong) (simp_all add: 1 [OF False])
    with False show ?thesis by simp
  qed
next
  case (2 M gp i xs relationPath dataPath)
  have "flatMap (\<lambda>entry. removalsOf M (gp\<lparr>removedRelations := x\<rparr>) (fst entry) relationPath
                          (appendPath dataPath ''/'' (showNat (snd entry))))
       (indexed xs) =
        flatMap (\<lambda>entry. removalsOf M gp (fst entry) relationPath
                          (appendPath dataPath ''/'' (showNat (snd entry))))
       (indexed xs)"
    by (rule flatMap_cong) (simp_all add: 2)
  then show ?case by simp
qed simp_all

lemma getData_none:
  "removedRelations gp = None \<Longrightarrow>
   getData M gp s = (if gp_isArray gp then gp_data gp else firstEntry (gp_data gp), gp, s)"
  by (simp add: getData_def)

lemma getData_some:
  assumes "removedRelations gp = Some rm" and "getData M gp s = (d, gp', s')"
  shows "\<exists>W. gp' = gp\<lparr>removedRelations := Some (fold putEntry W rm)\<rparr> \<and>
           map eraseEntry W = removalsOf M gp (erase (gp_data gp)) [] [] \<and>
           erase d = (if gp_isArray gp then stubOf M gp (erase (gp_data gp)) []
                      else firstEntry (stubOf M gp (erase (gp_data gp)) [])) \<and>
           freshFrom s s'"
proof -
  obtain d0 s0 rm0 where
    p: "processRelates M gp (gp_data gp) [] [] (s, Some rm) = (d0, (s0, rm0))"
    by (cases "processRelates M gp (gp_data gp) [] [] (s, Some rm)") auto
  from assms p have gp': "gp' = gp\<lparr>removedRelations := rm0\<rparr>"
    and d: "d = (if gp_isArray gp then d0 else firstEntry d0)" and s': "s' = s0"
    by (simp_all add: getData_def)
  from processRelates_sim [OF p] obtain W where
    e: "erase d0 = stubOf M gp (erase (gp_data gp)) []"
    and w: "rm0 = Some (fold putEntry W rm)"
    and we: "map eraseEntry W = removalsOf M gp (erase (gp_data gp)) [] []"
    by auto
  from processRelates_fresh [OF p] have f: "freshFrom s s'" by (simp add: s')
  have "erase d = (if gp_isArray gp then stubOf M gp (erase (gp_data gp)) []
                      else firstEntry (stubOf M gp (erase (gp_data gp)) []))"
    using e by (simp add: d erase_firstEntry del: erase.simps)
  with gp' w we f show ?thesis by blast
qed

lemma getData_frame:
  assumes "getData M gp s = (d, gp', s')"
  shows "gp' = gp\<lparr>removedRelations := removedRelations gp'\<rparr> \<and> freshFrom s s'"
proof (cases "removedRelations gp")
  case None
  with assms show ?thesis by (simp add: getData_none freshFrom_refl)
next
  case (Some rm)
  from getData_some [OF Some assms] show ?thesis by auto
qed

lemma getOptions_removed [simp]: "getOptions (gp\<lparr>removedRelations := x\<rparr>) = getOptions gp"
  by (simp add: getOptions_def)

lemma getData_twice:
  assumes "getData M gp s = (d1, gp1, s1)" and "getData M gp1 s1 = (d2, gp2, s2)"
  shows "erase d2 = erase d1"
    and "map_option (map fst) (removedRelations gp2) = map_option (map fst) (removedRelations gp1)"
    and "map_option (\<lambda>rm. map_of (map eraseEntry rm)) (removedRelations gp2) =
         map_option (\<lambda>rm. map_of (map eraseEntry rm)) (removedRelations gp1)"
proof -
  have "erase d2 = erase d1 \<and>
        map_option (map fst) (removedRelations gp2) = map_option (map fst) (removedRelations gp1) \<and>
        map_option (\<lambda>rm. map_of (map eraseEntry rm)) (removedRelations gp2) =
         map_option (\<lambda>rm. map_of (map eraseEntry rm)) (removedRelations gp1)"
  proof (cases "removedRelations gp")
    case None
    from assms(1) None have a: "gp1 = gp"
      and b: "d1 = (if gp_isArray gp then gp_data gp else firstEntry (gp_data gp))"
      by (auto simp: getData_none)
    from assms(2) None a have "gp2 = gp"
      and "d2 = (if gp_isArray gp then gp_data gp else firstEntry (gp_data gp))"
      by (auto simp: getData_none)
    with a b show ?thesis by simp
  next
    case (Some rm)
    from getData_some [OF Some assms(1)] obtain W1 where
      g1: "gp1 = gp\<lparr>removedRelations := Some (fold putEntry W1 rm)\<rparr>"
      and w1: "map eraseEntry W1 = removalsOf M gp (erase (gp_data gp)) [] []"
      and e1: "erase d1 = (if gp_isArray gp then stubOf M gp (erase (gp_data gp)) []
                      else firstEntry (stubOf M gp (erase (gp_data gp)) []))"
      by blast
    have r1: "removedRelations gp1 = Some (fold putEntry W1 rm)" by (simp add: g1)
    from getData_some [OF r1 assms(2)] obtain W2 where
      g2: "gp2 = gp1\<lparr>removedRelations := Some (fold putEntry W2 (fold putEntry W1 rm))\<rparr>"
      and w2: "map eraseEntry W2 = removalsOf M gp1 (erase (gp_data gp1)) [] []"
      and e2: "erase d2 = (if gp_isArray gp1 then stubOf M gp1 (erase (gp_data gp1)) []
                      else firstEntry (stubOf M gp1 (erase (gp_data gp1)) []))"
      by blast
    from w1 w2 have w: "map eraseEntry W2 = map eraseEntry W1" by (simp add: g1)
    from e1 e2 have "erase d2 = erase d1" by (simp add: g1)
    moreover have "removedRelations gp2 = Some (fold putEntry W2 (fold putEntry W1 rm))"
      by (simp add: g2)
    ultimately show ?thesis
      using removed_twice [OF w, of rm] r1 by simp
  qed
  then show "erase d2 = erase d1"
    and "map_option (map fst) (removedRelations gp2) = map_option (map fst) (removedRelations gp1)"
    and "map_option (\<lambda>rm. map_of (map eraseEntry rm)) (removedRelations gp2) =
         map_option (\<lambda>rm. map_of (map eraseEntry rm)) (removedRelations gp1)"
    by simp_all
qed

lemma fresh_not_input:
  "freshFrom s s' \<Longrightarrow> set ids \<subseteq> {..<nextId s} \<Longrightarrow> set (written s') \<inter> set ids \<subseteq> set (written s)"
  by (fastforce simp: freshFrom_def)

text \<open>
  C9: two calls of \<^verbatim>\<open>getData()\<close> in a row on one processor return structurally identical
  data, and \<^verbatim>\<open>getOptions()\<close> returns the same options before, between and after them.
  The calls leave the data of the processor as it is; the removed-relations map has the
  same keys, with structurally identical values, after the second call as after the
  first. Every object a call assigns a property of is one the call has created: when
  the objects of the input graph exist before the first call, none of them is written.
\<close>

theorem getData_getOptions_stable:
  assumes "getData M gp s = (d1, gp1, s1)" and "getData M gp1 s1 = (d2, gp2, s2)"
  shows "erase d2 = erase d1 \<and>
     getOptions gp1 = getOptions gp \<and> getOptions gp2 = getOptions gp \<and>
     gp_data gp1 = gp_data gp \<and> gp_data gp2 = gp_data gp \<and>
     map_option (map fst) (removedRelations gp2) = map_option (map fst) (removedRelations gp1) \<and>
     map_option (\<lambda>rm. map_of (map eraseEntry rm)) (removedRelations gp2) =
       map_option (\<lambda>rm. map_of (map eraseEntry rm)) (removedRelations gp1) \<and>
     freshFrom s s1 \<and> freshFrom s1 s2 \<and>
     (set (oids (gp_data gp)) \<subseteq> {..<nextId s} \<longrightarrow>
        set (written s2) \<inter> set (oids (gp_data gp)) \<subseteq> set (written s))"
proof -
  from getData_frame [OF assms(1)] have
    g1: "gp1 = gp\<lparr>removedRelations := removedRelations gp1\<rparr>" and f1: "freshFrom s s1"
    by simp_all
  from getData_frame [OF assms(2)] have
    g2: "gp2 = gp1\<lparr>removedRelations := removedRelations gp2\<rparr>" and f2: "freshFrom s1 s2"
    by simp_all
  have o1: "getOptions gp1 = getOptions gp" by (subst g1) simp
  have "getOptions gp2 = getOptions gp1" by (subst g2) simp
  with o1 have o2: "getOptions gp2 = getOptions gp" by simp
  have d1: "gp_data gp1 = gp_data gp" by (subst g1) simp
  have "gp_data gp2 = gp_data gp1" by (subst g2) simp
  with d1 have d2: "gp_data gp2 = gp_data gp" by simp
  from f1 f2 have "freshFrom s s2" by (rule freshFrom_trans)
  then have w: "set (oids (gp_data gp)) \<subseteq> {..<nextId s} \<longrightarrow>
        set (written s2) \<inter> set (oids (gp_data gp)) \<subseteq> set (written s)"
    using fresh_not_input [of s s2 "oids (gp_data gp)"] by blast
  from getData_twice [OF assms] o1 o2 d1 d2 f1 f2 w show ?thesis by blast
qed

theorem getData_getOptions_stable_witness:
  "getData exampleModels exampleProcessor \<lparr>nextId = 7, written = []\<rparr> =
     (GModel 8 ''Person''
        [(''id'', GNum 1),
         (''pets'', GArray 14 [GModel 15 ''Pet'' [(''id'', GNum 10), (''vet'', GModel 17 ''Person'' [(''id'', GNum 3)])]]),
         (''name'', GStr ''Joe''),
         (''employer'', GModel 18 ''Company'' [(''id'', GNum 20), (''name'', GStr ''ACME'')])],
      exampleProcessor\<lparr>removedRelations :=
         Some [(''0/employer'', [(''owner'', GModel 13 ''Person'' [(''id'', GNum 2), (''name'', GStr ''Jane'')])])]\<rparr>,
      \<lparr>nextId = 19, written = [15, 8, 8]\<rparr>) \<and>
   getData exampleModels
     (exampleProcessor\<lparr>removedRelations :=
         Some [(''0/employer'', [(''owner'', GModel 13 ''Person'' [(''id'', GNum 2), (''name'', GStr ''Jane'')])])]\<rparr>)
     \<lparr>nextId = 19, written = [15, 8, 8]\<rparr> =
     (GModel 20 ''Person''
        [(''id'', GNum 1),
         (''pets'', GArray 26 [GModel 27 ''Pet'' [(''id'', GNum 10), (''vet'', GModel 29 ''Person'' [(''id'', GNum 3)])]]),
         (''name'', GStr ''Joe''),
         (''employer'', GModel 30 ''Company'' [(''id'', GNum 20), (''name'', GStr ''ACME'')])],
      exampleProcessor\<lparr>removedRelations :=
         Some [(''0/employer'', [(''owner'', GModel 25 ''Person'' [(''id'', GNum 2), (''name'', GStr ''Jane'')])])]\<rparr>,
      \<lparr>nextId = 31, written = [15, 8, 8, 27, 20, 20]\<rparr>) \<and>
   oids (gp_data exampleProcessor) = [6, 0, 1, 2, 3, 4, 5] \<and>
   set (oids (gp_data exampleProcessor)) \<subseteq> {..<nextId \<lparr>nextId = 7, written = []\<rparr>} \<and>
   set [15, 8, 8, 27, 20, 20] \<inter> set (oids (gp_data exampleProcessor)) \<subseteq> set [] \<and>
   getOptions exampleProcessor =
     [(''relate'', JArr [JStr ''pets.vet'', JStr ''employer'', JStr ''employer.owner''])]"
proof -
  let ?d1 = "GModel 8 ''Person''
        [(''id'', GNum 1),
         (''pets'', GArray 14 [GModel 15 ''Pet'' [(''id'', GNum 10), (''vet'', GModel 17 ''Person'' [(''id'', GNum 3)])]]),
         (''name'', GStr ''Joe''),
         (''employer'', GModel 18 ''Company'' [(''id'', GNum 20), (''name'', GStr ''ACME'')])]"
  let ?gp1 = "exampleProcessor\<lparr>removedRelations :=
         Some [(''0/employer'', [(''owner'', GModel 13 ''Person'' [(''id'', GNum 2), (''name'', GStr ''Jane'')])])]\<rparr>"
  let ?s1 = "\<lparr>nextId = 19, written = [15, 8, 8]\<rparr>"
  let ?d2 = "GModel 20 ''Person''
        [(''id'', GNum 1),
         (''pets'', GArray 26 [GModel 27 ''Pet'' [(''id'', GNum 10), (''vet'', GModel 29 ''Person'' [(''id'', GNum 3)])]]),
         (''name'', GStr ''Joe''),
         (''employer'', GModel 30 ''Company'' [(''id'', GNum 20), (''name'', GStr ''ACME'')])]"
  let ?gp2 = "exampleProcessor\<lparr>removedRelations :=
         Some [(''0/employer'', [(''owner'', GModel 25 ''Person'' [(''id'', GNum 2), (''name'', GStr ''Jane'')])])]\<rparr>"
  let ?s2 = "\<lparr>nextId = 31, written = [15, 8, 8, 27, 20, 20]\<rparr>"
  have h1: "getData exampleModels exampleProcessor \<lparr>nextId = 7, written = []\<rparr> = (?d1, ?gp1, ?s1)"
    by code_simp
  have h2: "getData exampleModels ?gp1 ?s1 = (?d2, ?gp2, ?s2)"
    by code_simp
  have h3: "oids (gp_data exampleProcessor) = [6, 0, 1, 2, 3, 4, 5]"
    by (simp add: exampleProcessor_def exampleGraph_def)
  have h4: "getOptions exampleProcessor =
     [(''relate'', JArr [JStr ''pets.vet'', JStr ''employer'', JStr ''employer.owner''])]"
    by (simp add: getOptions_def exampleProcessor_def)
  from getData_getOptions_stable [OF h1 h2] h1 h2 h3 h4
  show ?thesis by (simp add: lessThan_def)
qed


lemma shouldRelate_global:
  "map_of (overrides gp) ''relate'' = None \<Longrightarrow> p \<noteq> [] \<Longrightarrow>
   shouldRelate gp p = (case map_of (gp_options gp) ''relate'' of Some v \<Rightarrow> v | None \<Rightarrow> JUndefined)"
  by (simp add: shouldRelate_def)



















lemma restoreEntries_Nil [simp]: "restoreEntries [] v = Inr v"
  by (simp add: restoreEntries_def)

































lemma sameData_array_one:
  "sameData (GArray i [y]) (GArray j [x]) \<Longrightarrow> sameData y x"
  by simp






















































end
